theory Spec2Isabelle
  imports Main
begin

section \<open>Data model of cfbs/core.py\<close>

text \<open>
  A module object is a Python dict with string keys. Every key the code reads or writes
  is a field here; \<open>None\<close> means that the key is absent. The order of the keys (which
  only matters for the printed JSON) is not modelled. An index entry has the same shape.
\<close>

record module =
  name :: "string option"
  description :: "string option"
  url :: "string option"
  commit :: "string option"
  subdirectory :: "string option"
  dependencies :: "string list option"
  steps :: "string list option"
  added_by :: "string option"
  alias_key :: "string option"
  tags :: "string list option"

definition empty_module :: module where
  "empty_module = \<lparr>name = None, description = None, url = None, commit = None,
     subdirectory = None, dependencies = None, steps = None, added_by = None,
     alias_key = None, tags = None\<rparr>"

text \<open>The exceptions and exits the code can end with.\<close>

datatype error =
    UserError string
  | AssertionError
  | KeyError string
  | UnboundLocalError
  | EOFError
  | TypeError
  | RecursionError
  | ExternalError string

text \<open>
  Modelled from the spec: \<open>user_error\<close> of cfbs.utils is not among the sources. The spec
  calls every user-facing failure an immediate, fatal, process-terminating diagnostic,
  so it is the error value carrying the message.
\<close>

definition user_error :: "string \<Rightarrow> error + 'a" where
  "user_error msg = Inl (UserError msg)"

text \<open>What a path of the filesystem is: a regular file, a directory, or anything else.\<close>

datatype ftype = File | Dir | Other

text \<open>
  What the code reads from outside, taken as parameters: the filesystem (\<open>fs\<close>, behind
  \<open>os.path.exists\<close>, \<open>isfile\<close> and \<open>isdir\<close>), and the collaborators that are not among
  the sources: \<open>read_file\<close>, \<open>find\<close> with the extension \<open>.cf\<close>, \<open>read_json\<close> and \<open>pretty\<close>
  of cfbs.utils and cfbs.pretty; \<open>local_module_name\<close>, \<open>SUPPORTED_ARCHIVES\<close>,
  \<open>fetch_archive\<close> and \<open>clone_url_repo\<close> of cfbs.internal_file_management; and the
  catalog behind the default index URL.
\<close>

type_synonym catalog = "string \<rightharpoonup> module"

text \<open>
  A parsed manifest: its \<open>provides\<close> mapping in key order, and the catalog its
  \<open>index\<close> key expands to, each \<open>None\<close> when the key is absent.
\<close>

record cfbs_data =
  d_provides :: "(string \<times> module) list option"
  d_index :: "catalog option"

record env =
  fs :: "string \<rightharpoonup> ftype"
  read_file :: "string \<Rightarrow> string"
  find_cf :: "string \<Rightarrow> string list"
  local_module_name :: "string \<Rightarrow> error + string"
  supported_archives :: "string list"
  fetch_archive :: "string \<Rightarrow> string option \<Rightarrow> error + (string \<times> string)"
  clone_url_repo :: "string \<Rightarrow> error + (string \<times> string)"
  read_json :: "string \<Rightarrow> cfbs_data option"
  default_index :: catalog
  pretty_module :: "module \<Rightarrow> string"
  pretty_data :: "cfbs_data \<Rightarrow> string"

definition path_exists :: "env \<Rightarrow> string \<Rightarrow> bool" where
  "path_exists e p = (fs e p \<noteq> None)"

definition isfile :: "env \<Rightarrow> string \<Rightarrow> bool" where
  "isfile e p = (fs e p = Some File)"

definition isdir :: "env \<Rightarrow> string \<Rightarrow> bool" where
  "isdir e p = (fs e p = Some Dir)"

subsection \<open>Strings\<close>

text \<open>
  Python's \<open>str.startswith\<close> and \<open>str.endswith\<close> (also with a tuple of candidates),
  \<open>in\<close> on strings, \<open>str.join\<close>, \<open>os.path.basename\<close>, \<open>str.lower\<close> and \<open>%d\<close>. Strings
  are byte strings here; \<open>lower\<close> maps the letters A to Z, and no other character becomes
  one of the letters of \<open>y\<close> and \<open>yes\<close>, the only strings a lowered string is compared with.
\<close>

definition startswith :: "string \<Rightarrow> string \<Rightarrow> bool" where
  "startswith s p = (take (length p) s = p)"

definition endswith :: "string \<Rightarrow> string \<Rightarrow> bool" where
  "endswith s p = (length p \<le> length s \<and> drop (length s - length p) s = p)"

definition startswith_any :: "string \<Rightarrow> string list \<Rightarrow> bool" where
  "startswith_any s ps = list_ex (startswith s) ps"

definition endswith_any :: "string \<Rightarrow> string list \<Rightarrow> bool" where
  "endswith_any s ps = list_ex (endswith s) ps"

fun contains :: "string \<Rightarrow> string \<Rightarrow> bool" where
  "contains [] p = (p = [])"
| "contains (c # cs) p = (startswith (c # cs) p \<or> contains cs p)"

fun join :: "string \<Rightarrow> string list \<Rightarrow> string" where
  "join sep [] = []"
| "join sep [x] = x"
| "join sep (x # y # ys) = x @ sep @ join sep (y # ys)"

definition sq :: string where
  "sq = [CHR 0x27]"

definition dq :: string where
  "dq = [CHR 0x22]"

fun basename :: "string \<Rightarrow> string" where
  "basename [] = []"
| "basename (c # cs) = (if CHR ''/'' \<in> set cs then basename cs
     else if c = CHR ''/'' then cs else c # cs)"

definition lower_char :: "char \<Rightarrow> char" where
  "lower_char c = (let n = (of_char c :: nat) in
     if 65 \<le> n \<and> n \<le> 90 then char_of (n + 32) else c)"

definition lower :: "string \<Rightarrow> string" where
  "lower s = map lower_char s"

fun string_of_nat :: "nat \<Rightarrow> string" where
  "string_of_nat n = (if n < 10 then [char_of (48 + n)]
     else string_of_nat (n div 10) @ [char_of (48 + n mod 10)])"

declare string_of_nat.simps [simp del]

subsection \<open>Local module objects\<close>

definition local_module_data_cf_file :: "string \<Rightarrow> module" where
  "local_module_data_cf_file m = empty_module\<lparr>
     description := Some ''Local policy file added using cfbs command line'',
     tags := Some [''local''],
     dependencies := Some [''autorun''],
     steps := Some [''copy '' @ m @ '' services/autorun/'' @ basename m],
     added_by := Some ''cfbs add''\<rparr>"

definition local_module_data_json_file :: "string \<Rightarrow> module" where
  "local_module_data_json_file m = empty_module\<lparr>
     description := Some ''Local augments file added using cfbs command line'',
     tags := Some [''local''],
     steps := Some [''json '' @ m @ '' def.json''],
     added_by := Some ''cfbs add''\<rparr>"

text \<open>\<open>os.path.join\<close> drops what precedes an absolute last component.\<close>

definition local_module_data_subdir :: "string \<Rightarrow> error + module" where
  "local_module_data_subdir m =
     (if \<not> startswith m ''./'' then Inl AssertionError
      else let rest = drop 2 m;
               dst = (if startswith rest ''/'' then rest else ''services/cfbs/'' @ rest)
           in Inr (empty_module\<lparr>
             description := Some ''Local subdirectory added using cfbs command line'',
             tags := Some [''local''],
             steps := Some [''directory '' @ m @ '' '' @ dst],
             added_by := Some ''cfbs add''\<rparr>))"

text \<open>The result is \<open>None\<close> where the Python function falls off its end.\<close>

definition generate_local_module_object :: "env \<Rightarrow> string \<Rightarrow> error + module option" where
  "generate_local_module_object e m =
     (if \<not> startswith m ''./'' then Inl AssertionError
      else if \<not> endswith_any m [''.cf'', ''.json'', ''/''] then Inl AssertionError
      else if \<not> (isfile e m \<or> isdir e m) then Inl AssertionError
      else if isdir e m then map_sum id Some (local_module_data_subdir m)
      else if endswith m ''.cf'' then Inr (Some (local_module_data_cf_file m))
      else if endswith m ''.json'' then Inr (Some (local_module_data_json_file m))
      else Inr None)"

subsection \<open>Index\<close>

text \<open>
  The catalog is the expanded mapping \<open>data["index"]\<close> of the Index object: the lazy
  load of \<open>Index.data\<close>, which exits the process when it fails, has taken place.
\<close>

definition index_exists :: "env \<Rightarrow> catalog \<Rightarrow> string \<Rightarrow> bool" where
  "index_exists e idx m = (path_exists e m \<or> m \<in> dom idx)"

text \<open>
  \<open>module = OrderedDict({"name": name}); module.update(self[name])\<close>: a \<open>name\<close> key
  of the catalog entry replaces the requested name.
\<close>

definition get_module_object :: "env \<Rightarrow> catalog \<Rightarrow> string \<Rightarrow> error + module option" where
  "get_module_object e idx n =
     (if startswith n ''./'' then generate_local_module_object e n
      else case idx n of
        None \<Rightarrow> Inl (KeyError n)
      | Some d \<Rightarrow>
          Inr (Some (d\<lparr>name := Some (case name d of None \<Rightarrow> n | Some n' \<Rightarrow> n')\<rparr>)))"

section \<open>CFBSJson\<close>

record cfbsjson =
  cj_data :: "cfbs_data option"
  cj_index :: catalog
  cj_url :: "string option"
  cj_commit :: "string option"

text \<open>\<open>CFBSJson.__init__\<close> without \<open>index_argument\<close> and \<open>data\<close>, as the remote add calls it.\<close>

definition cfbsjson_init ::
  "env \<Rightarrow> string \<Rightarrow> string option \<Rightarrow> string option \<Rightarrow> error + cfbsjson" where
  "cfbsjson_init e path u c =
     (if path = [] then Inl AssertionError
      else let d = read_json e path in
        Inr \<lparr>cj_data = d,
             cj_index = (case d of None \<Rightarrow> default_index e
                         | Some d' \<Rightarrow> (case d_index d' of None \<Rightarrow> default_index e | Some i \<Rightarrow> i)),
             cj_url = u, cj_commit = c\<rparr>)"

definition construct_provided_module ::
  "env \<Rightarrow> string \<Rightarrow> module \<Rightarrow> string option \<Rightarrow> string option \<Rightarrow> error + module" where
  "construct_provided_module e n d u c =
     (case description d of
        None \<Rightarrow> user_error
          (''missing required key '' @ sq @ ''description'' @ sq @ '' in module definition: ''
             @ pretty_module e d)
      | Some descr \<Rightarrow>
          (case steps d of
             None \<Rightarrow> user_error
               (''missing required key '' @ sq @ ''steps'' @ sq @ '' in module definition: ''
                  @ pretty_module e d)
           | Some st \<Rightarrow>
               Inr (empty_module\<lparr>
                 name := Some n,
                 description := Some descr,
                 url := u,
                 commit := c,
                 subdirectory := (case subdirectory d of None \<Rightarrow> None
                                  | Some sd \<Rightarrow> if sd = [] then None else Some sd),
                 dependencies := (case dependencies d of None \<Rightarrow> None
                                  | Some ds \<Rightarrow> if ds = [] then None else Some ds),
                 steps := Some st,
                 added_by := Some ''cfbs add''\<rparr>)))"

fun construct_all ::
  "env \<Rightarrow> string option \<Rightarrow> string option \<Rightarrow> (string \<times> module) list
     \<Rightarrow> error + (string \<times> module) list" where
  "construct_all e u c [] = Inr []"
| "construct_all e u c ((k, v) # kvs) =
     (case construct_provided_module e k v u c of
        Inl err \<Rightarrow> Inl err
      | Inr m \<Rightarrow> (case construct_all e u c kvs of
                    Inl err \<Rightarrow> Inl err
                  | Inr ms \<Rightarrow> Inr ((k, m) # ms)))"

definition get_provides :: "env \<Rightarrow> cfbsjson \<Rightarrow> error + (string \<times> module) list" where
  "get_provides e cj =
     (case cj_data cj of
        None \<Rightarrow> Inl TypeError
      | Some d \<Rightarrow>
          (case d_provides d of
             None \<Rightarrow> user_error
               (''missing required key '' @ sq @ ''provides'' @ sq @ '' in module definition: ''
                  @ pretty_data e d)
           | Some ps \<Rightarrow> construct_all e (cj_url cj) (cj_commit cj) ps))"

definition get_module_for_build ::
  "env \<Rightarrow> cfbsjson \<Rightarrow> string \<Rightarrow> string option \<Rightarrow> error + module option" where
  "get_module_for_build e cj n dependent =
     (case cj_data cj of
        None \<Rightarrow> Inl TypeError
      | Some d \<Rightarrow>
          (case (case d_provides d of None \<Rightarrow> None | Some ps \<Rightarrow> map_of ps n) of
             Some m \<Rightarrow> map_sum id Some (construct_provided_module e n m (cj_url cj) (cj_commit cj))
           | None \<Rightarrow>
               if n \<in> dom (cj_index cj) then get_module_object e (cj_index cj) n
               else Inr None))"

section \<open>CFBSConfig\<close>

text \<open>
  The mutable state of one run: the \<open>build\<close> list of the manifest, the lines printed,
  the warnings logged, and the lines still to be read from standard input.
\<close>

record state =
  build :: "module list"
  stdout :: "string list"
  warnings :: "string list"
  stdin :: "string list"

definition print :: "string \<Rightarrow> state \<Rightarrow> state" where
  "print line s = s\<lparr>stdout := stdout s @ [line]\<rparr>"

definition log_warning :: "string \<Rightarrow> state \<Rightarrow> state" where
  "log_warning line s = s\<lparr>warnings := warnings s @ [line]\<rparr>"

definition autorun_hint :: string where
  "autorun_hint = ''  meta: '' @ dq @ ''tags'' @ dq @ '' slist => { '' @ dq @ ''autorun'' @ dq @ '' };''"

definition has_autorun_tag :: "env \<Rightarrow> string \<Rightarrow> error + bool" where
  "has_autorun_tag e filename =
     (if \<not> isfile e filename then Inl AssertionError
      else let content = read_file e filename in
        Inr (contains content ''meta:'' \<and> contains content ''tags''
             \<and> contains content ''slist'' \<and> contains content ''autorun''))"

text \<open>
  \<open>any(x for x in policy_files if _has_autorun_tag(x))\<close>: the generator is consumed up
  to the first tagged file with a non-empty name.
\<close>

fun any_with_autorun :: "env \<Rightarrow> string list \<Rightarrow> error + bool" where
  "any_with_autorun e [] = Inr False"
| "any_with_autorun e (x # xs) =
     (case has_autorun_tag e x of
        Inl err \<Rightarrow> Inl err
      | Inr t \<Rightarrow> if t \<and> x \<noteq> [] then Inr True else any_with_autorun e xs)"

definition validate_added_module :: "env \<Rightarrow> module \<Rightarrow> state \<Rightarrow> (error + unit) \<times> state" where
  "validate_added_module e m s =
     (case name m of
        None \<Rightarrow> (Inl (KeyError ''name''), s)
      | Some n \<Rightarrow>
          if startswith n ''./'' \<and> endswith n ''.cf'' then
            (case has_autorun_tag e n of
               Inl err \<Rightarrow> (Inl err, s)
             | Inr t \<Rightarrow>
                 if \<not> t then
                   (Inr (),
                    log_warning autorun_hint
                      (log_warning ''Tag the bundle(s) you want evaluated:''
                        (log_warning (''No autorun tag found in policy file: '' @ sq @ n @ sq) s)))
                 else (Inr (), s))
          else if startswith n ''./'' \<and> endswith n ''/'' then
            (if \<not> isdir e n then (Inl AssertionError, s)
             else let policy_files = find_cf e n in
               if list_ex (\<lambda>x. x \<noteq> []) policy_files then
                 (case any_with_autorun e policy_files of
                    Inl err \<Rightarrow> (Inl err, s)
                  | Inr t \<Rightarrow>
                      if \<not> t then
                        (Inr (),
                         log_warning autorun_hint
                           (log_warning ''Tag the bundle(s) you want evaluated in .cf policy files:''
                             (log_warning
                               (''No bundles tagged with autorun found in: '' @ sq @ n @ sq) s)))
                      else (Inr (), s))
               else (Inr (), s))
          else (Inr (), s))"

subsection \<open>add_with_dependencies\<close>

datatype module_ref = ByName string | Object module

fun module_is_in_build :: "string \<Rightarrow> module list \<Rightarrow> error + bool" where
  "module_is_in_build n [] = Inr False"
| "module_is_in_build n (b # bs) =
     (case name b of
        None \<Rightarrow> Inl (KeyError ''name'')
      | Some n' \<Rightarrow> if n' = n then Inr True else module_is_in_build n bs)"

text \<open>
  The head of \<open>add_with_dependencies\<close>: a name is looked up in the remote manifest or,
  without one, in this manifest; an object is taken as it is. \<open>module_str\<close> is only bound
  when a name was passed.
\<close>

definition resolve_module ::
  "env \<Rightarrow> cfbsjson \<Rightarrow> cfbsjson option \<Rightarrow> module_ref \<Rightarrow> string option \<Rightarrow> error + module" where
  "resolve_module e self remote_config mref dependent =
     (case mref of
        ByName module_str \<Rightarrow>
          (case get_module_for_build e
                  (case remote_config of None \<Rightarrow> self | Some rc \<Rightarrow> rc) module_str dependent of
             Inl err \<Rightarrow> Inl err
           | Inr None \<Rightarrow> user_error (''Module '' @ sq @ module_str @ sq @ '' not found'')
           | Inr (Some m) \<Rightarrow>
               if m = empty_module
               then user_error (''Module '' @ sq @ module_str @ sq @ '' not found'')
               else Inr m)
      | Object m \<Rightarrow> if m = empty_module then Inl UnboundLocalError else Inr m)"

text \<open>The tail of \<open>add_with_dependencies\<close>: append, print, validate.\<close>

definition append_module ::
  "env \<Rightarrow> module \<Rightarrow> string \<Rightarrow> string option \<Rightarrow> state \<Rightarrow> (error + unit) \<times> state" where
  "append_module e m nm dependent s =
     (let s2 = s\<lparr>build := build s @ [m]\<rparr>;
          s3 = (case dependent of
                  None \<Rightarrow> print (''Added module: '' @ nm) s2
                | Some d \<Rightarrow>
                    if d = [] then print (''Added module: '' @ nm) s2
                    else print (''Added module: '' @ nm @ '' (Dependency of '' @ d @ '')'') s2)
      in validate_added_module e m s3)"

text \<open>
  The first argument bounds the depth of the recursion that is still allowed, as the
  interpreter's recursion limit does: a call that would go deeper ends with
  \<open>RecursionError\<close>. \<open>add_dependencies\<close> is the loop over \<open>module["dependencies"]\<close>.
\<close>

fun add_with_dependencies ::
  "nat \<Rightarrow> env \<Rightarrow> cfbsjson \<Rightarrow> cfbsjson option \<Rightarrow> module_ref \<Rightarrow> string option \<Rightarrow> state
     \<Rightarrow> (error + unit) \<times> state"
and add_dependencies ::
  "nat \<Rightarrow> env \<Rightarrow> cfbsjson \<Rightarrow> cfbsjson option \<Rightarrow> string list \<Rightarrow> string \<Rightarrow> state
     \<Rightarrow> (error + unit) \<times> state" where
  "add_with_dependencies n e self remote_config mref dependent s =
     (case resolve_module e self remote_config mref dependent of
        Inl err \<Rightarrow> (Inl err, s)
      | Inr m \<Rightarrow>
          (case name m of
             None \<Rightarrow> (Inl AssertionError, s)
           | Some nm \<Rightarrow>
               if steps m = None then (Inl AssertionError, s)
               else
                 (case module_is_in_build nm (build s) of
                    Inl err \<Rightarrow> (Inl err, s)
                  | Inr True \<Rightarrow>
                      (Inr (), print (''Skipping already added module '' @ sq @ nm @ sq) s)
                  | Inr False \<Rightarrow>
                      (case (case dependencies m of
                               None \<Rightarrow> (Inr (), s)
                             | Some deps \<Rightarrow> add_dependencies n e self remote_config deps nm s) of
                         (Inl err, s1) \<Rightarrow> (Inl err, s1)
                       | (Inr _, s1) \<Rightarrow> append_module e m nm dependent s1))))"
| "add_dependencies n e self remote_config [] nm s = (Inr (), s)"
| "add_dependencies n e self remote_config (dep # deps) nm s =
     (case n of
        0 \<Rightarrow> (Inl RecursionError, s)
      | Suc k \<Rightarrow>
          (case add_with_dependencies k e self remote_config (ByName dep) (Some nm) s of
             (Inl err, s1) \<Rightarrow> (Inl err, s1)
           | (Inr _, s1) \<Rightarrow> add_dependencies n e self remote_config deps nm s1))"

subsection \<open>The remote add\<close>

definition input :: "string \<Rightarrow> state \<Rightarrow> (error + string) \<times> state" where
  "input prompt s =
     (let s1 = print prompt s in
      case stdin s1 of
        [] \<Rightarrow> (Inl EOFError, s1)
      | l # ls \<Rightarrow> (Inr l, s1\<lparr>stdin := ls\<rparr>))"

fun print_module_names :: "module list \<Rightarrow> state \<Rightarrow> (error + unit) \<times> state" where
  "print_module_names [] s = (Inr (), s)"
| "print_module_names (m # ms) s =
     (case name m of
        None \<Rightarrow> (Inl (KeyError ''name''), s)
      | Some n \<Rightarrow> print_module_names ms (print (''  - '' @ n) s))"

text \<open>The loop \<open>for module in modules: self.add_with_dependencies(module, remote_config)\<close>.\<close>

fun add_all ::
  "nat \<Rightarrow> env \<Rightarrow> cfbsjson \<Rightarrow> cfbsjson \<Rightarrow> module list \<Rightarrow> state \<Rightarrow> (error + int) \<times> state" where
  "add_all n e self remote_config [] s = (Inr 0, s)"
| "add_all n e self remote_config (m # ms) s =
     (case add_with_dependencies n e self (Some remote_config) (Object m) None s of
        (Inl err, s1) \<Rightarrow> (Inl err, s1)
      | (Inr _, s1) \<Rightarrow> add_all n e self remote_config ms s1)"

definition url_schemes :: "string list" where
  "url_schemes = [''https://'', ''git://'', ''ssh://'']"

text \<open>
  \<open>added_by\<close> and \<open>index_path\<close> are parameters the function never reads. The keys of
  \<open>provides\<close> are distinct, as those of a dict are.
\<close>

text \<open>The first statement of \<open>_add_using_url\<close>: the archive is fetched or the repository cloned.\<close>

definition fetch_config :: "env \<Rightarrow> string \<Rightarrow> string option \<Rightarrow> error + (string \<times> string)" where
  "fetch_config e u checksum =
     (if endswith_any u (supported_archives e) then fetch_archive e u checksum
      else if \<not> startswith_any u url_schemes then Inl AssertionError
      else clone_url_repo e u)"

definition add_using_url ::
  "nat \<Rightarrow> env \<Rightarrow> cfbsjson \<Rightarrow> string \<Rightarrow> string list \<Rightarrow> string option \<Rightarrow> bool \<Rightarrow> state
     \<Rightarrow> (error + int) \<times> state" where
  "add_using_url n e self u to_add checksum non_interactive s =
     (case fetch_config e u checksum of
        Inl err \<Rightarrow> (Inl err, s)
      | Inr (config_path, url_commit) \<Rightarrow>
          (case cfbsjson_init e config_path (Some u) (Some url_commit) of
             Inl err \<Rightarrow> (Inl err, s)
           | Inr remote_config \<Rightarrow>
               (case get_provides e remote_config of
                  Inl err \<Rightarrow> (Inl err, s)
                | Inr provides \<Rightarrow>
                    if to_add = [] then
                      (let modules = map snd provides;
                           s1 = print (''Found '' @ string_of_nat (length modules)
                                  @ '' modules in '' @ sq @ u @ sq @ '':'') s
                       in case print_module_names modules s1 of
                            (Inl err, s2) \<Rightarrow> (Inl err, s2)
                          | (Inr _, s2) \<Rightarrow>
                              if modules = [] then
                                (user_error ''no modules available, nothing to do'', s2)
                              else if \<not> non_interactive then
                                (case input (''Do you want to add all ''
                                        @ string_of_nat (length modules)
                                        @ '' of them? [y/N] '') s2 of
                                   (Inl err, s3) \<Rightarrow> (Inl err, s3)
                                 | (Inr answer, s3) \<Rightarrow>
                                     if lower answer \<notin> set [''y'', ''yes''] then (Inr 0, s3)
                                     else add_all n e self remote_config modules s3)
                              else add_all n e self remote_config modules s2)
                    else
                      (let missing = filter (\<lambda>k. map_of provides k = None) to_add in
                       if missing \<noteq> [] then
                         (user_error (''Missing modules: '' @ join '', '' missing), s)
                       else add_all n e self remote_config
                              (List.map_filter (map_of provides) to_add) s))))"

subsection \<open>The direct add\<close>

text \<open>The loop "Translate all aliases and remote paths".\<close>

fun translate ::
  "env \<Rightarrow> catalog \<Rightarrow> string list \<Rightarrow> string list \<Rightarrow> state \<Rightarrow> (error + string list) \<times> state" where
  "translate e index [] translated s = (Inr translated, s)"
| "translate e index (m # ms) translated s =
     (if \<not> index_exists e index m then
        (user_error (''Module '' @ sq @ m @ sq @ '' does not exist''), s)
      else if index m = None \<and> path_exists e m then
        (case local_module_name e m of
           Inl err \<Rightarrow> (Inl err, s)
         | Inr t \<Rightarrow> translate e index ms (translated @ [t]) s)
      else
        (case index m of
           None \<Rightarrow> (Inl (KeyError m), s)
         | Some d \<Rightarrow>
             (case alias_key d of
                Some a \<Rightarrow>
                  translate e index ms (translated @ [a]) (print (m @ '' is an alias for '' @ a) s)
              | None \<Rightarrow> translate e index ms (translated @ [m]) s)))"

text \<open>\<open>added_by\<close> is a string, a list of strings or a dictionary.\<close>

datatype added_by_arg = AStr string | AList "string list" | ADict "string \<rightharpoonup> string"

text \<open>\<open>{k: v for k, v in zip(to_add, added_by)}\<close>: a later pair replaces an earlier one.\<close>

definition dict_of_zip :: "string list \<Rightarrow> string list \<Rightarrow> (string \<rightharpoonup> string)" where
  "dict_of_zip ks vs = fold (\<lambda>(k, v) d. d(k \<mapsto> v)) (zip ks vs) Map.empty"

definition added_by_dict :: "added_by_arg \<Rightarrow> string list \<Rightarrow> error + (string \<rightharpoonup> string)" where
  "added_by_dict added_by' to_add =
     (case (case added_by' of
              AStr a \<Rightarrow> Inr (dict_of_zip to_add (replicate (length to_add) a))
            | AList l \<Rightarrow>
                if length l \<noteq> length to_add then Inl AssertionError
                else Inr (dict_of_zip to_add l)
            | ADict d \<Rightarrow> Inr d) of
        Inl err \<Rightarrow> Inl err
      | Inr d \<Rightarrow> if list_ex (\<lambda>k. d k = None) to_add then Inl AssertionError else Inr d)"

text \<open>\<open>[m for m in to_add if not m.startswith("./") and m not in index]\<close>\<close>

definition missing_modules :: "catalog \<Rightarrow> string list \<Rightarrow> string list" where
  "missing_modules index to_add = filter (\<lambda>m. \<not> startswith m ''./'' \<and> index m = None) to_add"

text \<open>
  The loop "If some modules were added as deps previously, mark them as user requested".
  It changes the entries in place, so the entries before a failing one stay changed.
\<close>

fun mark_user_requested ::
  "string list \<Rightarrow> (string \<rightharpoonup> string) \<Rightarrow> module list \<Rightarrow> error option \<times> module list" where
  "mark_user_requested to_add ab [] = (None, [])"
| "mark_user_requested to_add ab (b # bs) =
     (case name b of
        None \<Rightarrow> (Some (KeyError ''name''), b # bs)
      | Some n \<Rightarrow>
          if n \<in> set to_add then
            (case ab n of
               None \<Rightarrow> (Some (KeyError n), b # bs)
             | Some new_added_by \<Rightarrow>
                 (case mark_user_requested to_add ab bs of
                    (r, bs') \<Rightarrow>
                      (r, (if new_added_by = ''cfbs add'' then b\<lparr>added_by := Some ''cfbs add''\<rparr>
                           else b) # bs')))
          else (case mark_user_requested to_add ab bs of (r, bs') \<Rightarrow> (r, b # bs')))"

fun build_names :: "module list \<Rightarrow> error + string list" where
  "build_names [] = Inr []"
| "build_names (b # bs) =
     (case name b of
        None \<Rightarrow> Inl (KeyError ''name'')
      | Some n \<Rightarrow> (case build_names bs of Inl err \<Rightarrow> Inl err | Inr ns \<Rightarrow> Inr (n # ns)))"

text \<open>
  The loop "Filter modules which are already added". The variable \<open>user_requested\<close> is
  assigned in every iteration and read again after the loop, so its last value is part of
  the result (\<open>None\<close>: never assigned).
\<close>

fun filter_added ::
  "(string \<rightharpoonup> string) \<Rightarrow> string list \<Rightarrow> string list \<Rightarrow> string list \<Rightarrow> bool option \<Rightarrow> state
     \<Rightarrow> (error + string list \<times> bool option) \<times> state" where
  "filter_added ab added [] filtered user_requested s = (Inr (filtered, user_requested), s)"
| "filter_added ab added (m # ms) filtered user_requested s =
     (case ab m of
        None \<Rightarrow> (Inl (KeyError m), s)
      | Some a \<Rightarrow>
          (let ur = (a = ''cfbs add'') in
           if m \<in> set (added @ filtered) then
             filter_added ab added ms filtered (Some ur)
               (if ur then print (''Skipping already added module: '' @ m) s else s)
           else filter_added ab added ms (filtered @ [m]) (Some ur) s))"

text \<open>The loop "Find all unmet dependencies" and its inner loop.\<close>

fun collect_dependencies ::
  "string list \<Rightarrow> string list \<Rightarrow> string \<Rightarrow> string list \<Rightarrow> string list \<times> string list
     \<Rightarrow> string list \<times> string list" where
  "collect_dependencies added filtered m [] acc = acc"
| "collect_dependencies added filtered m (dep # deps) (ds, ds_added_by) =
     (if dep \<notin> set (added @ filtered @ ds)
      then collect_dependencies added filtered m deps (ds @ [dep], ds_added_by @ [m])
      else collect_dependencies added filtered m deps (ds, ds_added_by))"

fun find_dependencies ::
  "env \<Rightarrow> catalog \<Rightarrow> string list \<Rightarrow> string list \<Rightarrow> string list \<Rightarrow> string list \<times> string list
     \<Rightarrow> error + string list \<times> string list" where
  "find_dependencies e index added filtered [] acc = Inr acc"
| "find_dependencies e index added filtered (m # ms) acc =
     (if \<not> index_exists e index m then Inl AssertionError
      else case get_module_object e index m of
        Inl err \<Rightarrow> Inl err
      | Inr None \<Rightarrow> Inl TypeError
      | Inr (Some d) \<Rightarrow>
          if alias_key d \<noteq> None then Inl AssertionError
          else find_dependencies e index added filtered ms
                 (case dependencies d of
                    None \<Rightarrow> acc
                  | Some deps \<Rightarrow> collect_dependencies added filtered m deps acc))"

text \<open>
  The last loop: every module of \<open>filtered\<close> is appended to \<open>build\<close>. The message is
  chosen by \<open>user_requested\<close>, the variable the filter loop left behind.
  \<open>materialize_one\<close> is the body of the loop.
\<close>

definition materialize_one ::
  "env \<Rightarrow> catalog \<Rightarrow> (string \<rightharpoonup> string) \<Rightarrow> bool option \<Rightarrow> string \<Rightarrow> state
     \<Rightarrow> (error + unit) \<times> state" where
  "materialize_one e index ab user_requested m s =
     (if \<not> index_exists e index m then (Inl AssertionError, s)
      else case get_module_object e index m of
        Inl err \<Rightarrow> (Inl err, s)
      | Inr None \<Rightarrow> (Inl TypeError, s)
      | Inr (Some d) \<Rightarrow>
          (case ab m of
             None \<Rightarrow> (Inl (KeyError m), s)
           | Some a \<Rightarrow>
               (let new_module =
                      d\<lparr>name := Some (case name d of None \<Rightarrow> m | Some n \<Rightarrow> n),
                        added_by := Some a\<rparr>;
                    s1 = s\<lparr>build := build s @ [new_module]\<rparr>
                in case user_requested of
                     None \<Rightarrow> (Inl UnboundLocalError, s1)
                   | Some ur \<Rightarrow>
                       validate_added_module e new_module
                         (if ur then print (''Added module: '' @ m) s1
                          else print (''Added module: '' @ m
                                 @ '' (Dependency of '' @ a @ '')'') s1))))"

fun materialize ::
  "env \<Rightarrow> catalog \<Rightarrow> (string \<rightharpoonup> string) \<Rightarrow> bool option \<Rightarrow> string list \<Rightarrow> state
     \<Rightarrow> (error + unit) \<times> state" where
  "materialize e index ab user_requested [] s = (Inr (), s)"
| "materialize e index ab user_requested (m # ms) s =
     (case materialize_one e index ab user_requested m s of
        (Inl err, s1) \<Rightarrow> (Inl err, s1)
      | (Inr _, s1) \<Rightarrow> materialize e index ab user_requested ms s1)"

text \<open>
  The statements of \<open>_add_modules\<close> before its recursive call: the result is the
  attribution dictionary, \<open>filtered\<close>, the last value of \<open>user_requested\<close>, and the unmet
  dependencies with the modules that introduced them.
\<close>

definition add_modules_plan ::
  "env \<Rightarrow> cfbsjson \<Rightarrow> string list \<Rightarrow> added_by_arg \<Rightarrow> state
     \<Rightarrow> (error + (string \<rightharpoonup> string) \<times> string list \<times> bool option \<times> string list \<times> string list)
        \<times> state" where
  "add_modules_plan e self to_add added_by' s =
     (case translate e (cj_index self) to_add [] s of
        (Inl err, s1) \<Rightarrow> (Inl err, s1)
      | (Inr translated, s1) \<Rightarrow>
     (case added_by_dict added_by' translated of
        Inl err \<Rightarrow> (Inl err, s1)
      | Inr ab \<Rightarrow>
     (let missing = missing_modules (cj_index self) translated in
      if missing \<noteq> [] then
        (user_error (''Module(s) could not be found: '' @ join '', '' missing), s1)
      else
     (case mark_user_requested translated ab (build s1) of
        (Some err, b2) \<Rightarrow> (Inl err, s1\<lparr>build := b2\<rparr>)
      | (None, b2) \<Rightarrow>
     (case build_names b2 of
        Inl err \<Rightarrow> (Inl err, s1\<lparr>build := b2\<rparr>)
      | Inr added \<Rightarrow>
     (case filter_added ab added translated [] None (s1\<lparr>build := b2\<rparr>) of
        (Inl err, s3) \<Rightarrow> (Inl err, s3)
      | (Inr (filtered, user_requested), s3) \<Rightarrow>
     (case find_dependencies e (cj_index self) added filtered filtered ([], []) of
        Inl err \<Rightarrow> (Inl err, s3)
      | Inr (deps, deps_added_by) \<Rightarrow>
          (Inr (ab, filtered, user_requested, deps, deps_added_by), s3))))))))"

text \<open>
  The test of \<open>add_command\<close> on its first reference:
  \<open>to_add[0].endswith(SUPPORTED_ARCHIVES) or to_add[0].startswith(("https://", "git://", "ssh://"))\<close>.
\<close>

definition is_remote_source :: "env \<Rightarrow> string \<Rightarrow> bool" where
  "is_remote_source e first =
     (endswith_any first (supported_archives e) \<or> startswith_any first url_schemes)"

text \<open>
  \<open>_add_modules\<close> and \<open>add_command\<close> call each other. The first argument bounds the
  depth of the recursion that is still allowed, as for \<open>add_with_dependencies\<close>. The
  parameters \<open>index_path\<close>, \<open>checksum\<close> and \<open>non_interactive\<close> of \<open>_add_modules\<close> are never
  read; the recursive call of \<open>add_command\<close> leaves \<open>checksum\<close> and \<open>non_interactive\<close> at
  their defaults.
\<close>

fun add_modules ::
  "nat \<Rightarrow> env \<Rightarrow> cfbsjson \<Rightarrow> string list \<Rightarrow> added_by_arg \<Rightarrow> state \<Rightarrow> (error + int) \<times> state"
and add_command ::
  "nat \<Rightarrow> env \<Rightarrow> cfbsjson \<Rightarrow> string list \<Rightarrow> added_by_arg \<Rightarrow> string option \<Rightarrow> bool \<Rightarrow> state
     \<Rightarrow> (error + int) \<times> state" where
  "add_modules n e self to_add added_by' s =
     (case add_modules_plan e self to_add added_by' s of
        (Inl err, s3) \<Rightarrow> (Inl err, s3)
      | (Inr (ab, filtered, user_requested, deps, deps_added_by), s3) \<Rightarrow>
     (case (if deps \<noteq> [] then
              (case n of
                 0 \<Rightarrow> (Inl RecursionError, s3)
               | Suc k \<Rightarrow> add_command k e self deps (AList deps_added_by) None False s3)
            else (Inr 0, s3)) of
        (Inl err, s4) \<Rightarrow> (Inl err, s4)
      | (Inr _, s4) \<Rightarrow>
     (case materialize e (cj_index self) ab user_requested filtered s4 of
        (Inl err, s5) \<Rightarrow> (Inl err, s5)
      | (Inr _, s5) \<Rightarrow> (Inr 0, s5))))"
| "add_command n e self [] added_by' checksum non_interactive s =
     (user_error ''Must specify at least one module to add'', s)"
| "add_command n e self (first # rest) added_by' checksum non_interactive s =
     (if is_remote_source e first
      then add_using_url n e self first rest checksum non_interactive s
      else add_modules n e self (first # rest) added_by' s)"

section \<open>Predicates and example inputs\<close>

subsection \<open>Common inputs\<close>

text \<open>
  An environment with an empty filesystem, no remote source and the identity as
  \<open>local_module_name\<close>; catalog entries and provided modules with the given dependencies;
  a manifest with the given catalog and an empty \<open>build\<close>.
\<close>

definition ex_env :: env where
  "ex_env = \<lparr>fs = Map.empty, read_file = (\<lambda>_. []), find_cf = (\<lambda>_. []),
     local_module_name = (\<lambda>p. Inr p), supported_archives = [''.zip'', ''.tar.gz'', ''.tgz''],
     fetch_archive = (\<lambda>_ _. Inl (ExternalError [])),
     clone_url_repo = (\<lambda>_. Inl (ExternalError [])),
     read_json = (\<lambda>_. None), default_index = Map.empty,
     pretty_module = (\<lambda>_. []), pretty_data = (\<lambda>_. [])\<rparr>"

definition ex_entry :: "string list \<Rightarrow> module" where
  "ex_entry ds = empty_module\<lparr>steps := Some [''run''],
     dependencies := (if ds = [] then None else Some ds)\<rparr>"

definition ex_self :: "(string \<times> module) list \<Rightarrow> cfbsjson" where
  "ex_self kvs = \<lparr>cj_data = Some \<lparr>d_provides = None, d_index = None\<rparr>,
     cj_index = map_of kvs, cj_url = None, cj_commit = None\<rparr>"

definition ex_state :: state where
  "ex_state = \<lparr>build = [], stdout = [], warnings = [], stdin = []\<rparr>"

definition ex_provided :: "string list \<Rightarrow> module" where
  "ex_provided ds = empty_module\<lparr>description := Some ''provided'', steps := Some [''run''],
     dependencies := (if ds = [] then None else Some ds)\<rparr>"

text \<open>A remote source whose manifest provides the given modules and carries the given catalog.\<close>

definition ex_remote_env :: "(string \<times> module) list \<Rightarrow> (string \<times> module) list \<Rightarrow> env" where
  "ex_remote_env provided kvs = ex_env\<lparr>
     clone_url_repo := (\<lambda>u. Inr (''/tmp/repo/cfbs.json'', ''c0ffee'')),
     read_json := (\<lambda>p. Some \<lparr>d_provides = Some provided, d_index = Some (map_of kvs)\<rparr>)\<rparr>"

text \<open>The filesystem holds the one file \<open>/etc/passwd\<close>.\<close>

definition passwd_env :: env where
  "passwd_env = ex_env\<lparr>fs := [''/etc/passwd'' \<mapsto> File]\<rparr>"

text \<open>\<open>add_command(["A", "B"], ["cfbs add", "x"])\<close> on the catalog \<open>{A, B}\<close>.\<close>

definition mixed_attribution_run :: "(error + int) \<times> state" where
  "mixed_attribution_run =
     add_command 0 ex_env (ex_self [(''A'', ex_entry []), (''B'', ex_entry [])])
       [''A'', ''B''] (AList [''cfbs add'', ''x'']) None False ex_state"

text \<open>
  \<open>add_command(["https://example.com/repo", "p"])\<close>: the remote manifest provides \<open>p\<close>
  (which depends on \<open>q\<close> and \<open>r\<close>) and \<open>q\<close>; its catalog holds \<open>r\<close>.
\<close>

definition remote_dependency_run :: "(error + int) \<times> state" where
  "remote_dependency_run =
     add_command 1
       (ex_remote_env [(''p'', ex_provided [''q'', ''r'']), (''q'', ex_provided [])]
          [(''r'', ex_entry [])])
       (ex_self []) [''https://example.com/repo'', ''p''] (AStr ''cfbs add'') None False ex_state"

text \<open>\<open>add_command(["A", "C"])\<close> on the catalog where \<open>A\<close> needs \<open>B\<close> and \<open>B\<close> needs \<open>C\<close>.\<close>

definition transitive_batch_run :: "(error + int) \<times> state" where
  "transitive_batch_run =
     add_command 2 ex_env
       (ex_self [(''A'', ex_entry [''B'']), (''B'', ex_entry [''C'']), (''C'', ex_entry [])])
       [''A'', ''C''] (AStr ''cfbs add'') None False ex_state"

subsection \<open>A declined confirmation\<close>

text \<open>
  A remote source providing \<open>m1\<close> and \<open>m2\<close>, added with no module named, where the
  user answers \<open>n\<close> to the confirmation: the call of \<open>_add_using_url\<close>, the manifest it
  loads, the modules it offers, and the same request through \<open>add_command\<close>.
\<close>

definition declined_env :: env where
  "declined_env = ex_remote_env [(''m1'', ex_provided []), (''m2'', ex_provided [])] []"

definition declined_run :: "(error + int) \<times> state" where
  "declined_run =
     add_using_url 0 declined_env (ex_self []) ''https://example.com/repo'' [] None False
       (ex_state\<lparr>stdin := [''n'']\<rparr>)"

definition declined_remote :: cfbsjson where
  "declined_remote =
     \<lparr>cj_data = Some \<lparr>d_provides = Some [(''m1'', ex_provided []), (''m2'', ex_provided [])],
        d_index = Some (map_of [])\<rparr>,
      cj_index = map_of [], cj_url = Some ''https://example.com/repo'',
      cj_commit = Some ''c0ffee''\<rparr>"

definition ex_constructed :: "string \<Rightarrow> module" where
  "ex_constructed k = empty_module\<lparr>name := Some k, description := Some ''provided'',
     url := Some ''https://example.com/repo'', commit := Some ''c0ffee'',
     steps := Some [''run''], added_by := Some ''cfbs add''\<rparr>"

definition declined_command_run :: "(error + int) \<times> state" where
  "declined_command_run =
     add_command 0 declined_env (ex_self []) [''https://example.com/repo''] (AStr ''cfbs add'')
       None False (ex_state\<lparr>stdin := [''n'']\<rparr>)"

subsection \<open>Translation of references\<close>

text \<open>
  The translation of one reference as the spec words it (Path B, step 1): a catalog key
  stands for itself or, when its entry declares an alias, for the alias target; a path
  that exists and is no catalog key stands for its canonical local name. \<open>None\<close> when the
  reference exists nowhere or has no canonical name.
\<close>

definition translated_ref :: "env \<Rightarrow> catalog \<Rightarrow> string \<Rightarrow> string option" where
  "translated_ref e index m =
     (case index m of
        Some d \<Rightarrow> (case alias_key d of Some a \<Rightarrow> Some a | None \<Rightarrow> Some m)
      | None \<Rightarrow>
          if path_exists e m
          then (case local_module_name e m of Inl err \<Rightarrow> None | Inr t \<Rightarrow> Some t)
          else None)"

definition translatable :: "env \<Rightarrow> catalog \<Rightarrow> string \<Rightarrow> bool" where
  "translatable e index m = (case translated_ref e index m of None \<Rightarrow> False | Some t \<Rightarrow> True)"

text \<open>
  \<open>add_command(["a", "b"])\<close> with an empty catalog and an empty filesystem; a catalog
  of two aliases whose targets are no catalog keys, and an attribution for the targets.
\<close>

definition missing_names_run :: "(error + int) \<times> state" where
  "missing_names_run =
     add_command 0 ex_env (ex_self []) [''a'', ''b''] (AStr ''cfbs add'') None False ex_state"

definition alias_catalog :: "(string \<times> module) list" where
  "alias_catalog = [(''x'', empty_module\<lparr>alias_key := Some ''gone1''\<rparr>),
                    (''y'', empty_module\<lparr>alias_key := Some ''gone2''\<rparr>)]"

definition alias_added_by :: "string \<rightharpoonup> string" where
  "alias_added_by = [''gone1'' \<mapsto> ''cfbs add'', ''gone2'' \<mapsto> ''cfbs add'']"

subsection \<open>Changes of build\<close>

text \<open>
  How \<open>build\<close> may change: an entry stays as it is or has its \<open>added_by\<close> set to the
  user-requested marker, and entries are appended at the end.
\<close>

definition promoted :: "module \<Rightarrow> module \<Rightarrow> bool" where
  "promoted b b' = (b' = b \<or> b' = b\<lparr>added_by := Some ''cfbs add''\<rparr>)"

definition build_extends :: "module list \<Rightarrow> module list \<Rightarrow> bool" where
  "build_extends b b' = list_all2 promoted b (take (length b) b')"

text \<open>
  A manifest where \<open>B\<close> was added as a dependency of \<open>A\<close>; \<open>add_command(["B"])\<close> and
  \<open>add_command(["C"])\<close> on it, where \<open>C\<close> depends on \<open>A\<close>.
\<close>

definition promotion_state :: state where
  "promotion_state = ex_state\<lparr>build :=
     [(ex_entry [])\<lparr>name := Some ''B'', added_by := Some ''A''\<rparr>,
      (ex_entry [''B''])\<lparr>name := Some ''A'', added_by := Some ''cfbs add''\<rparr>]\<rparr>"

definition promotion_self :: cfbsjson where
  "promotion_self =
     ex_self [(''A'', ex_entry [''B'']), (''B'', ex_entry []), (''C'', ex_entry [''A''])]"

definition promotion_command_run :: "(error + int) \<times> state" where
  "promotion_command_run =
     add_command 0 ex_env promotion_self [''B''] (AStr ''cfbs add'') None False promotion_state"

definition dependency_readd_run :: "(error + int) \<times> state" where
  "dependency_readd_run =
     add_command 1 ex_env promotion_self [''C''] (AStr ''cfbs add'') None False promotion_state"

text \<open>
  The manifest a remote source providing \<open>B\<close> gives, the recursive add of \<open>B\<close> from
  it on that manifest, and \<open>add_command(["https://example.com/repo", "B"])\<close>.
\<close>

definition promotion_remote :: cfbsjson where
  "promotion_remote =
     \<lparr>cj_data = Some \<lparr>d_provides = Some [(''B'', ex_provided [])],
        d_index = Some (map_of [])\<rparr>,
      cj_index = map_of [], cj_url = Some ''https://example.com/repo'',
      cj_commit = Some ''c0ffee''\<rparr>"

definition remote_readd_run :: "(error + unit) \<times> state" where
  "remote_readd_run =
     add_with_dependencies 0 ex_env promotion_self (Some promotion_remote) (ByName ''B'') None
       promotion_state"

definition promotion_env :: env where
  "promotion_env = ex_remote_env [(''B'', ex_provided [])] []"

definition remote_command_run :: "(error + int) \<times> state" where
  "remote_command_run =
     add_command 0 promotion_env promotion_self [''https://example.com/repo'', ''B'']
       (AStr ''cfbs add'') None False promotion_state"

text \<open>
  A catalog where \<open>A\<close> depends on \<open>q\<close>, and a remote source that provides \<open>q\<close>:
  \<open>add_command(["A"])\<close> followed by \<open>add_command(["https://example.com/repo", "q"])\<close>.
\<close>

definition readd_env :: env where
  "readd_env = ex_remote_env [(''q'', ex_provided [])] []"

definition readd_self :: cfbsjson where
  "readd_self = ex_self [(''A'', ex_entry [''q'']), (''q'', ex_entry [])]"

definition readd_first_run :: "(error + int) \<times> state" where
  "readd_first_run =
     add_command 1 readd_env readd_self [''A''] (AStr ''cfbs add'') None False ex_state"

definition readd_second_run :: "(error + int) \<times> state" where
  "readd_second_run =
     add_command 1 readd_env readd_self [''https://example.com/repo'', ''q'']
       (AStr ''cfbs add'') None False (snd readd_first_run)"

subsection \<open>Dependency ordering\<close>

text \<open>
  The ordering of C2: every name among the dependencies of an entry is the name of an
  earlier entry of the list.
\<close>

definition module_dependencies :: "module \<Rightarrow> string list" where
  "module_dependencies m = (case dependencies m of None \<Rightarrow> [] | Some ds \<Rightarrow> ds)"

fun deps_ordered_from :: "string option list \<Rightarrow> module list \<Rightarrow> bool" where
  "deps_ordered_from seen [] = True"
| "deps_ordered_from seen (m # ms) =
     (list_all (\<lambda>d. Some d \<in> set seen) (module_dependencies m)
      \<and> deps_ordered_from (seen @ [name m]) ms)"

definition deps_ordered :: "module list \<Rightarrow> bool" where
  "deps_ordered b = deps_ordered_from [] b"

text \<open>No catalog entry carries a \<open>name\<close> key other than the key it is stored under.\<close>

definition catalog_keeps_names :: "catalog \<Rightarrow> bool" where
  "catalog_keeps_names index = (\<forall>k d. index k = Some d \<longrightarrow> name d = None \<or> name d = Some k)"

text \<open>\<open>add_command(["A", "B"])\<close> on the catalog where \<open>A\<close> depends on \<open>B\<close>.\<close>

definition same_batch_run :: "(error + int) \<times> state" where
  "same_batch_run =
     add_command 0 ex_env (ex_self [(''A'', ex_entry [''B'']), (''B'', ex_entry [])])
       [''A'', ''B''] (AStr ''cfbs add'') None False ex_state"

text \<open>
  The recursive add of \<open>p\<close> from a remote manifest that provides \<open>p\<close> (depending on
  \<open>q\<close> and \<open>r\<close>) and \<open>q\<close>, and whose catalog holds \<open>r\<close>.
\<close>

definition ordered_remote :: cfbsjson where
  "ordered_remote =
     \<lparr>cj_data = Some \<lparr>d_provides = Some [(''p'', ex_provided [''q'', ''r'']),
          (''q'', ex_provided [])],
        d_index = Some (map_of [(''r'', ex_entry [])])\<rparr>,
      cj_index = map_of [(''r'', ex_entry [])], cj_url = Some ''https://example.com/repo'',
      cj_commit = Some ''c0ffee''\<rparr>"

definition ordered_run :: "(error + unit) \<times> state" where
  "ordered_run =
     add_with_dependencies 1 ex_env (ex_self []) (Some ordered_remote) (ByName ''p'') None
       ex_state"

subsection \<open>Cycles and ranks\<close>

text \<open>
  A catalog where \<open>A\<close> and \<open>B\<close> depend on each other, and a remote manifest whose
  provided modules \<open>p\<close> and \<open>q\<close> depend on each other.
\<close>

definition cycle_self :: cfbsjson where
  "cycle_self = ex_self [(''A'', ex_entry [''B'']), (''B'', ex_entry [''A''])]"

definition cycle_remote :: cfbsjson where
  "cycle_remote =
     \<lparr>cj_data = Some \<lparr>d_provides = Some [(''p'', ex_provided [''q'']),
          (''q'', ex_provided [''p''])],
        d_index = Some (map_of [])\<rparr>,
      cj_index = map_of [], cj_url = Some ''https://example.com/repo'',
      cj_commit = Some ''c0ffee''\<rparr>"

text \<open>
  Acyclic dependencies, through a rank on names. In a manifest, every dependency of the
  module a name resolves to ranks below the name. In the direct add, every dependency of
  the module a reference translates to ranks below the reference. For the remote sources,
  the manifest fetched from a URL descends in this way, and every dependency of a module
  it provides ranks below the URL. A reference is within a depth when its rank is, or, for
  an object, when the ranks of its dependencies are below it.
\<close>

definition dependencies_descend :: "env \<Rightarrow> cfbsjson \<Rightarrow> (string \<Rightarrow> nat) \<Rightarrow> bool" where
  "dependencies_descend e cfg rk =
     (\<forall>k dependent m d. get_module_for_build e cfg k dependent = Inr (Some m) \<longrightarrow>
        d \<in> set (module_dependencies m) \<longrightarrow> rk d < rk k)"

definition references_descend :: "env \<Rightarrow> catalog \<Rightarrow> (string \<Rightarrow> nat) \<Rightarrow> bool" where
  "references_descend e index rk =
     (\<forall>r t m d. translated_ref e index r = Some t \<longrightarrow>
        get_module_object e index t = Inr (Some m) \<longrightarrow>
        d \<in> set (module_dependencies m) \<longrightarrow> rk d < rk r)"

definition remote_descend :: "env \<Rightarrow> (string \<Rightarrow> nat) \<Rightarrow> bool" where
  "remote_descend e rk =
     (\<forall>u checksum p c rc. fetch_config e u checksum = Inr (p, c) \<longrightarrow>
        cfbsjson_init e p (Some u) (Some c) = Inr rc \<longrightarrow>
        dependencies_descend e rc rk
        \<and> (\<forall>ps k m d. get_provides e rc = Inr ps \<longrightarrow> (k, m) \<in> set ps \<longrightarrow>
              d \<in> set (module_dependencies m) \<longrightarrow> rk d < rk u))"

definition ref_within :: "(string \<Rightarrow> nat) \<Rightarrow> nat \<Rightarrow> module_ref \<Rightarrow> bool" where
  "ref_within rk n mref =
     (case mref of
        ByName k \<Rightarrow> rk k \<le> n
      | Object m \<Rightarrow> list_all (\<lambda>d. rk d < n) (module_dependencies m))"

text \<open>The collaborators do not themselves end by exceeding the recursion limit.\<close>

definition collaborators_return :: "env \<Rightarrow> bool" where
  "collaborators_return e =
     ((\<forall>p. local_module_name e p \<noteq> Inl RecursionError)
      \<and> (\<forall>u c. fetch_archive e u c \<noteq> Inl RecursionError)
      \<and> (\<forall>u. clone_url_repo e u \<noteq> Inl RecursionError))"

text \<open>
  A rank for \<open>ordered_remote\<close> and the object of its module \<open>p\<close>; a catalog where \<open>A\<close>
  depends on a remote source that provides \<open>p\<close> (depending on \<open>q\<close>) and \<open>q\<close>, with its
  rank, where the user answers \<open>y\<close> to the confirmation.
\<close>

definition remote_rank :: "string \<Rightarrow> nat" where
  "remote_rank x = (if x = ''p'' then 1 else 0)"

definition ordered_object :: module where
  "ordered_object = (ex_constructed ''p'')\<lparr>dependencies := Some [''q'', ''r'']\<rparr>"

definition remote_chain_env :: env where
  "remote_chain_env = ex_remote_env [(''p'', ex_provided [''q'']), (''q'', ex_provided [])] []"

definition remote_chain_self :: cfbsjson where
  "remote_chain_self = ex_self [(''A'', ex_entry [''https://example.com/repo''])]"

definition remote_chain_rank :: "string \<Rightarrow> nat" where
  "remote_chain_rank x =
     (if x = ''A'' then 3 else if startswith_any x url_schemes then 2
      else if x = ''p'' then 1 else 0)"

definition remote_chain_state :: state where
  "remote_chain_state = ex_state\<lparr>stdin := [''y'']\<rparr>"

section \<open>Index.exists\<close>

text \<open>
  C8, as the code has it: \<open>exists(name)\<close> is true exactly when \<open>name\<close> exists on the
  filesystem, whatever its suffix, or \<open>name\<close> is a key of the catalog.
\<close>

theorem index_exists_iff:
  "index_exists e idx n \<longleftrightarrow> (\<exists>t. fs e n = Some t) \<or> (\<exists>d. idx n = Some d)"
  by (auto simp: index_exists_def path_exists_def)

theorem index_exists_iff_witness:
  "index_exists passwd_env (map_of [(''autorun'', ex_entry [])]) ''autorun''
   \<and> \<not> index_exists passwd_env (map_of [(''autorun'', ex_entry [])]) ''missing.cf''"
  using index_exists_iff [of passwd_env "map_of [(''autorun'', ex_entry [])]" "''autorun''"]
    index_exists_iff [of passwd_env "map_of [(''autorun'', ex_entry [])]" "''missing.cf''"]
  by (simp add: passwd_env_def ex_env_def)

text \<open>
  C8 as stated fails: \<open>/etc/passwd\<close> exists, ends in none of \<open>.cf\<close>, \<open>.json\<close>, \<open>/\<close> and is
  no catalog key, and \<open>exists\<close> is true for it.
\<close>

theorem index_exists_unsuffixed_path:
  "index_exists passwd_env Map.empty ''/etc/passwd''
   \<and> \<not> endswith_any ''/etc/passwd'' [''.cf'', ''.json'', ''/'']
   \<and> ''/etc/passwd'' \<notin> dom (Map.empty :: catalog)"
  by (simp add: index_exists_def path_exists_def endswith_any_def endswith_def
      passwd_env_def ex_env_def)

section \<open>add_command\<close>

text \<open>
  C10: \<open>add_command\<close> with an empty list of references ends with the fatal diagnostic
  "Must specify at least one module to add"; the state is the one it was called in, so
  nothing was printed, fetched or appended before.
\<close>

theorem add_command_empty:
  "add_command n e self [] added_by' checksum non_interactive s
     = (Inl (UserError ''Must specify at least one module to add''), s)"
  by (simp add: user_error_def)

section \<open>Messages of the direct add\<close>

text \<open>
  C9 at \<open>add_command(["A", "B"], ["cfbs add", "x"])\<close>: \<open>A\<close> is appended with the
  user-requested marker as its attribution, and the message printed for it is the
  dependency message, because the last reference of the request is not user-requested.
\<close>

theorem materialize_message_of_last_reference:
  "fst mixed_attribution_run = Inr 0
   \<and> map (\<lambda>m. (name m, added_by m)) (build (snd mixed_attribution_run))
       = [(Some ''A'', Some ''cfbs add''), (Some ''B'', Some ''x'')]
   \<and> stdout (snd mixed_attribution_run)
       = [''Added module: A (Dependency of cfbs add)'', ''Added module: B (Dependency of x)'']"
  by code_simp

section \<open>Attribution in the recursive add\<close>

text \<open>
  C5 at a remote add of \<open>p\<close>, which depends on \<open>q\<close> (provided by the remote manifest) and
  \<open>r\<close> (of its catalog): \<open>q\<close> is appended with the user-requested marker and \<open>r\<close> with no
  \<open>added_by\<close> key, though both are announced as dependencies of \<open>p\<close>.
\<close>

theorem dependency_not_attributed_to_dependent:
  "fst remote_dependency_run = Inr 0
   \<and> map (\<lambda>m. (name m, added_by m)) (build (snd remote_dependency_run))
       = [(Some ''q'', Some ''cfbs add''), (Some ''r'', None), (Some ''p'', Some ''cfbs add'')]
   \<and> stdout (snd remote_dependency_run)
       = [''Added module: q (Dependency of p)'', ''Added module: r (Dependency of p)'',
          ''Added module: p'']"
  by code_simp

section \<open>Uniqueness of names\<close>

text \<open>
  C3 at \<open>add_command(["A", "C"])\<close> where \<open>A\<close> needs \<open>B\<close> and \<open>B\<close> needs \<open>C\<close>: \<open>C\<close> is
  appended as a dependency of \<open>B\<close> and once more as the requested module, so \<open>build\<close> ends
  with two entries named \<open>C\<close>.
\<close>

theorem batch_appends_name_twice:
  "fst transitive_batch_run = Inr 0
   \<and> map (\<lambda>m. (name m, added_by m)) (build (snd transitive_batch_run))
       = [(Some ''C'', Some ''B''), (Some ''B'', Some ''A''), (Some ''A'', Some ''cfbs add''),
          (Some ''C'', Some ''cfbs add'')]"
  by code_simp

section \<open>Declined confirmation\<close>

lemma construct_provided_module_name:
  "construct_provided_module e k v u c = Inr m \<Longrightarrow> name m = Some k"
  by (auto simp: construct_provided_module_def user_error_def split: option.splits)

lemma construct_all_names:
  "construct_all e u c ps = Inr ms \<Longrightarrow> list_all (\<lambda>(k, m). name m = Some k) ms"
proof (induction ps arbitrary: ms)
  case Nil
  then show ?case by simp
next
  case (Cons p ps)
  obtain k v where p: "p = (k, v)" by (cases p)
  from Cons.prems p show ?case
    by (auto split: sum.splits dest: construct_provided_module_name Cons.IH)
qed

lemma get_provides_names:
  "get_provides e cj = Inr ms \<Longrightarrow> list_all (\<lambda>(k, m). name m = Some k) ms"
  by (auto simp: get_provides_def user_error_def split: option.splits dest: construct_all_names)

lemma print_module_names_provided:
  "list_all (\<lambda>(k, m). name m = Some k) ms \<Longrightarrow>
   print_module_names (map snd ms) s
     = (Inr (), s\<lparr>stdout := stdout s @ map (\<lambda>(k, m). ''  - '' @ k) ms\<rparr>)"
proof (induction ms arbitrary: s)
  case Nil
  then show ?case by simp
next
  case (Cons p ms)
  obtain k m where p: "p = (k, m)" by (cases p)
  from Cons.prems p have nm: "name m = Some k"
    and rest: "list_all (\<lambda>(k, m). name m = Some k) ms"
    by simp_all
  show ?case
    using Cons.IH [OF rest, of "print (''  - '' @ k) s"] nm p
    by (simp add: print_def)
qed

text \<open>
  C7, as the code has it: when the remote manifest could be fetched and provides at least
  one module, no module was named, the run is interactive and the answer read is neither
  \<open>y\<close> nor \<open>yes\<close> (in any case of the letters), \<open>_add_using_url\<close> returns 0 at once. It has
  printed the list of modules and the question and nothing else, raised no error, and
  \<open>build\<close> is as before.
\<close>

theorem declined_confirmation_returns_zero:
  assumes "fetch_config e u checksum = Inr (config_path, url_commit)"
    and "cfbsjson_init e config_path (Some u) (Some url_commit) = Inr remote_config"
    and "get_provides e remote_config = Inr provides"
    and "provides \<noteq> []"
    and "stdin s = answer # rest"
    and "lower answer \<noteq> ''y''" and "lower answer \<noteq> ''yes''"
  shows "add_using_url n e self u [] checksum False s
     = (Inr 0,
        s\<lparr>stdout := stdout s
             @ [''Found '' @ string_of_nat (length provides) @ '' modules in ''
                  @ sq @ u @ sq @ '':'']
             @ map (\<lambda>(k, m). ''  - '' @ k) provides
             @ [''Do you want to add all '' @ string_of_nat (length provides)
                  @ '' of them? [y/N] ''],
          stdin := rest\<rparr>)"
  using assms print_module_names_provided [OF get_provides_names [OF assms(3)]]
  by (simp add: add_using_url_def input_def print_def)

theorem declined_confirmation_returns_zero_witness:
  "fst declined_run = Inr 0 \<and> build (snd declined_run) = []
   \<and> stdout (snd declined_run)
       = [''Found 2 modules in '' @ sq @ ''https://example.com/repo'' @ sq @ '':'',
          ''  - m1'', ''  - m2'', ''Do you want to add all 2 of them? [y/N] '']"
proof -
  have 1: "fetch_config declined_env ''https://example.com/repo'' None
      = Inr (''/tmp/repo/cfbs.json'', ''c0ffee'')"
    by code_simp
  have 2: "cfbsjson_init declined_env ''/tmp/repo/cfbs.json'' (Some ''https://example.com/repo'')
      (Some ''c0ffee'') = Inr declined_remote"
    by (simp add: cfbsjson_init_def declined_env_def ex_remote_env_def ex_env_def
        declined_remote_def)
  have 3: "get_provides declined_env declined_remote
      = Inr [(''m1'', ex_constructed ''m1''), (''m2'', ex_constructed ''m2'')]"
    by (simp add: get_provides_def declined_remote_def construct_provided_module_def
        ex_provided_def ex_constructed_def empty_module_def)
  have 4: "stdin (ex_state\<lparr>stdin := [''n'']\<rparr>) = ''n'' # []"
    by simp
  have 5: "lower ''n'' \<noteq> ''y''" "lower ''n'' \<noteq> ''yes''"
    by (simp_all add: lower_def lower_char_def)
  have 6: "string_of_nat (Suc (Suc 0)) = ''2''"
    by code_simp
  show ?thesis
    using declined_confirmation_returns_zero [OF 1 2 3 _ 4 5, of 0 "ex_self []"]
    by (simp add: declined_run_def ex_state_def 6)
qed

text \<open>
  C7 as stated fails: with the answer \<open>n\<close>, \<open>add_command\<close> on a remote source returns 0,
  the value of a successful add, and neither an error nor a warning tells the user that
  nothing was added.
\<close>

theorem declined_is_a_successful_return:
  "fst declined_command_run = Inr 0
   \<and> build (snd declined_command_run) = []
   \<and> warnings (snd declined_command_run) = []
   \<and> stdout (snd declined_command_run)
       = [''Found 2 modules in '' @ sq @ ''https://example.com/repo'' @ sq @ '':'',
          ''  - m1'', ''  - m2'', ''Do you want to add all 2 of them? [y/N] '']"
  by code_simp

section \<open>Missing references in the direct add\<close>

lemma translate_unchanged:
  "translate e index ms acc s = (r, s1) \<Longrightarrow>
   build s1 = build s \<and> warnings s1 = warnings s \<and> stdin s1 = stdin s"
proof (induction ms arbitrary: acc s)
  case Nil
  then show ?case by auto
next
  case (Cons m ms)
  then show ?case
    by (fastforce simp: print_def user_error_def split: if_splits sum.splits option.splits)
qed

lemma translate_translatable:
  "list_all (translatable e index) ms \<Longrightarrow>
   fst (translate e index ms acc s) = Inr (acc @ List.map_filter (translated_ref e index) ms)"
proof (induction ms arbitrary: acc s)
  case Nil
  then show ?case by (simp add: map_filter_simps)
next
  case (Cons m ms)
  then show ?case
    by (auto simp: translatable_def translated_ref_def index_exists_def map_filter_simps dom_def
        split: option.splits sum.splits if_splits)
qed

lemma translate_first_missing:
  "list_all (translatable e index) pre \<Longrightarrow> \<not> index_exists e index x \<Longrightarrow>
   fst (translate e index (pre @ x # post) acc s)
     = Inl (UserError (''Module '' @ sq @ x @ sq @ '' does not exist''))"
proof (induction pre arbitrary: acc s)
  case Nil
  then show ?case by (simp add: user_error_def)
next
  case (Cons m ms)
  then show ?case
    by (auto simp: translatable_def translated_ref_def index_exists_def dom_def
        split: option.splits sum.splits if_splits)
qed

lemma add_modules_first_missing:
  assumes "list_all (translatable e (cj_index self)) pre"
    and "\<not> index_exists e (cj_index self) x"
  shows "fst (add_modules n e self (pre @ x # post) ab s)
           = Inl (UserError (''Module '' @ sq @ x @ sq @ '' does not exist''))
         \<and> build (snd (add_modules n e self (pre @ x # post) ab s)) = build s"
proof -
  obtain r s1 where t: "translate e (cj_index self) (pre @ x # post) [] s = (r, s1)"
    by (cases "translate e (cj_index self) (pre @ x # post) [] s")
  from translate_first_missing [OF assms, of post "[]" s] t
  have r: "r = Inl (UserError (''Module '' @ sq @ x @ sq @ '' does not exist''))" by simp
  from translate_unchanged [OF t] have "build s1 = build s" by simp
  with t r show ?thesis by (simp add: add_modules_plan_def)
qed

lemma add_modules_batched_missing:
  assumes "list_all (translatable e (cj_index self)) to_add"
    and "added_by_dict ab (List.map_filter (translated_ref e (cj_index self)) to_add) = Inr d"
    and "missing_modules (cj_index self) (List.map_filter (translated_ref e (cj_index self)) to_add) \<noteq> []"
  shows "fst (add_modules n e self to_add ab s)
           = Inl (UserError (''Module(s) could not be found: ''
               @ join '', '' (missing_modules (cj_index self)
                   (List.map_filter (translated_ref e (cj_index self)) to_add))))
         \<and> build (snd (add_modules n e self to_add ab s)) = build s"
proof -
  obtain r s1 where t: "translate e (cj_index self) to_add [] s = (r, s1)"
    by (cases "translate e (cj_index self) to_add [] s")
  from translate_translatable [OF assms(1), of "[]" s] t
  have r: "r = Inr (List.map_filter (translated_ref e (cj_index self)) to_add)" by simp
  from translate_unchanged [OF t] have "build s1 = build s" by simp
  with t r assms(2,3) show ?thesis by (simp add: add_modules_plan_def user_error_def)
qed

text \<open>
  C1, as the code has it. A reference that neither exists on the filesystem nor is a
  catalog key, after references that could be translated, ends \<open>_add_modules\<close> with an
  error naming that reference alone. When every reference can be translated, the
  translated references that do not start with \<open>./\<close> and are no catalog keys are named
  together in one error. In both cases \<open>build\<close> is as before the call.
\<close>

theorem missing_references_fail_without_mutation:
  "(list_all (translatable e (cj_index self)) pre \<and> \<not> index_exists e (cj_index self) x \<longrightarrow>
      fst (add_modules n e self (pre @ x # post) ab s)
        = Inl (UserError (''Module '' @ sq @ x @ sq @ '' does not exist''))
      \<and> build (snd (add_modules n e self (pre @ x # post) ab s)) = build s)
   \<and> (list_all (translatable e (cj_index self)) to_add
      \<and> added_by_dict ab (List.map_filter (translated_ref e (cj_index self)) to_add) = Inr d
      \<and> missing_modules (cj_index self)
           (List.map_filter (translated_ref e (cj_index self)) to_add) \<noteq> [] \<longrightarrow>
      fst (add_modules n e self to_add ab s)
        = Inl (UserError (''Module(s) could not be found: ''
            @ join '', '' (missing_modules (cj_index self)
                (List.map_filter (translated_ref e (cj_index self)) to_add))))
      \<and> build (snd (add_modules n e self to_add ab s)) = build s)"
  using add_modules_first_missing add_modules_batched_missing by blast

theorem missing_references_fail_without_mutation_witness:
  "fst (add_modules 0 ex_env (ex_self []) ([] @ ''a'' # [''b'']) (AStr ''cfbs add'') ex_state)
     = Inl (UserError (''Module '' @ sq @ ''a'' @ sq @ '' does not exist''))
   \<and> build (snd (add_modules 0 ex_env (ex_self []) ([] @ ''a'' # [''b'']) (AStr ''cfbs add'')
        ex_state)) = []
   \<and> fst (add_modules 0 ex_env (ex_self alias_catalog) [''x'', ''y''] (ADict alias_added_by)
        ex_state)
     = Inl (UserError ''Module(s) could not be found: gone1, gone2'')
   \<and> build (snd (add_modules 0 ex_env (ex_self alias_catalog) [''x'', ''y'']
        (ADict alias_added_by) ex_state)) = []"
proof -
  have a: "list_all (translatable ex_env (cj_index (ex_self []))) []
      \<and> \<not> index_exists ex_env (cj_index (ex_self [])) ''a''"
    by (simp add: index_exists_def path_exists_def ex_env_def ex_self_def)
  have tr: "List.map_filter (translated_ref ex_env (cj_index (ex_self alias_catalog))) [''x'', ''y'']
      = [''gone1'', ''gone2'']"
    by (simp add: map_filter_simps translated_ref_def ex_self_def alias_catalog_def)
  have b: "list_all (translatable ex_env (cj_index (ex_self alias_catalog))) [''x'', ''y'']
      \<and> added_by_dict (ADict alias_added_by)
          (List.map_filter (translated_ref ex_env (cj_index (ex_self alias_catalog)))
             [''x'', ''y'']) = Inr alias_added_by
      \<and> missing_modules (cj_index (ex_self alias_catalog))
          (List.map_filter (translated_ref ex_env (cj_index (ex_self alias_catalog)))
             [''x'', ''y'']) \<noteq> []"
    unfolding tr
    by (simp add: translatable_def translated_ref_def ex_self_def alias_catalog_def
        added_by_dict_def alias_added_by_def missing_modules_def startswith_def)
  have m: "missing_modules (cj_index (ex_self alias_catalog)) [''gone1'', ''gone2'']
      = [''gone1'', ''gone2'']"
    by (simp add: missing_modules_def startswith_def ex_self_def alias_catalog_def)
  from missing_references_fail_without_mutation
    [where e = ex_env and self = "ex_self []" and pre = "[]" and x = "''a''"
       and post = "[''b'']" and n = 0 and ab = "AStr ''cfbs add''" and s = ex_state,
     THEN conjunct1, rule_format, OF a]
  have 1: "fst (add_modules 0 ex_env (ex_self []) ([] @ ''a'' # [''b'']) (AStr ''cfbs add'')
        ex_state) = Inl (UserError (''Module '' @ sq @ ''a'' @ sq @ '' does not exist''))
      \<and> build (snd (add_modules 0 ex_env (ex_self []) ([] @ ''a'' # [''b''])
           (AStr ''cfbs add'') ex_state)) = []"
    by (simp add: ex_state_def)
  from missing_references_fail_without_mutation
    [where e = ex_env and self = "ex_self alias_catalog" and to_add = "[''x'', ''y'']"
       and n = 0 and ab = "ADict alias_added_by" and s = ex_state and d = alias_added_by,
     THEN conjunct2, rule_format, OF b]
  have 2: "fst (add_modules 0 ex_env (ex_self alias_catalog) [''x'', ''y'']
        (ADict alias_added_by) ex_state)
        = Inl (UserError ''Module(s) could not be found: gone1, gone2'')
      \<and> build (snd (add_modules 0 ex_env (ex_self alias_catalog) [''x'', ''y'']
           (ADict alias_added_by) ex_state)) = []"
    unfolding tr m by (simp add: ex_state_def)
  from 1 2 show ?thesis by simp
qed

text \<open>
  C1 as stated fails: for \<open>["a", "b"]\<close>, both absent from the catalog and from the
  filesystem, the error names \<open>a\<close> and not \<open>b\<close>.
\<close>

theorem first_missing_name_reported_alone:
  "missing_names_run
     = (Inl (UserError (''Module '' @ sq @ ''a'' @ sq @ '' does not exist'')), ex_state)
   \<and> \<not> contains (''Module '' @ sq @ ''a'' @ sq @ '' does not exist'') ''b''"
  by code_simp

section \<open>How the add operations change build\<close>

lemma promoted_refl: "promoted b b"
  by (simp add: promoted_def)

lemma promoted_trans: "promoted a b \<Longrightarrow> promoted b c \<Longrightarrow> promoted a c"
  by (auto simp: promoted_def)

lemma build_extends_length: "build_extends b b' \<Longrightarrow> length b \<le> length b'"
  by (auto simp: build_extends_def dest!: list_all2_lengthD)

lemma build_extends_refl: "build_extends b b"
  by (simp add: build_extends_def list_all2_refl promoted_refl)

lemma build_extends_append: "build_extends b (b @ xs)"
  by (simp add: build_extends_def list_all2_refl promoted_refl)

lemma build_extends_trans:
  assumes "build_extends a b" and "build_extends b c"
  shows "build_extends a c"
proof -
  from assms have l: "length a \<le> length b" "length b \<le> length c"
    by (auto dest: build_extends_length)
  from assms(2) have "list_all2 promoted (take (length a) b) (take (length a) (take (length b) c))"
    unfolding build_extends_def by (rule list_all2_takeI)
  with l have "list_all2 promoted (take (length a) b) (take (length a) c)"
    by (simp add: min_def)
  with assms(1) have "list_all2 promoted a (take (length a) c)"
    unfolding build_extends_def
    using list_all2_trans [of promoted promoted promoted] promoted_trans by blast
  then show ?thesis by (simp add: build_extends_def)
qed

lemma build_extends_nth:
  assumes "build_extends b b'" and "i < length b"
  shows "i < length b' \<and> promoted (b ! i) (b' ! i)"
proof -
  from assms have l: "i < length b'" by (auto dest: build_extends_length)
  from assms have "promoted (b ! i) (take (length b) b' ! i)"
    unfolding build_extends_def by (auto dest: list_all2_nthD)
  with assms(2) l show ?thesis by simp
qed

lemma mark_user_requested_extends:
  "build_extends b (snd (mark_user_requested to_add ab b))"
proof (induction b)
  case Nil
  then show ?case by (simp add: build_extends_def)
next
  case (Cons m b)
  then show ?case
    by (auto simp: build_extends_def promoted_def list_all2_refl split: option.splits prod.splits)
qed

lemma validate_added_module_unchanged:
  "validate_added_module e m s = (r, s') \<Longrightarrow> build s' = build s \<and> stdin s' = stdin s"
  by (auto simp: validate_added_module_def log_warning_def Let_def
      split: option.splits if_splits sum.splits)

lemma filter_added_unchanged:
  "filter_added ab added ms filtered ur s = (r, s') \<Longrightarrow> build s' = build s"
proof (induction ms arbitrary: filtered ur s)
  case Nil
  then show ?case by auto
next
  case (Cons m ms)
  then show ?case
    by (fastforce simp: print_def Let_def split: option.splits if_splits)
qed

lemma materialize_one_extends:
  "materialize_one e index ab ur m s = (r, s') \<Longrightarrow> build_extends (build s) (build s')"
  by (auto simp: materialize_one_def Let_def print_def build_extends_refl build_extends_append
      split: if_splits sum.splits option.splits dest!: validate_added_module_unchanged)

lemma materialize_extends:
  "materialize e index ab ur ms s = (r, s') \<Longrightarrow> build_extends (build s) (build s')"
proof (induction ms arbitrary: s)
  case Nil
  then show ?case by (auto simp: build_extends_refl)
next
  case (Cons m ms)
  obtain r1 s1 where a: "materialize_one e index ab ur m s = (r1, s1)"
    by (cases "materialize_one e index ab ur m s")
  from materialize_one_extends [OF a] have e1: "build_extends (build s) (build s1)" .
  show ?case
  proof (cases r1)
    case (Inl err)
    with Cons.prems a e1 show ?thesis by simp
  next
    case (Inr u)
    with Cons.prems a have "materialize e index ab ur ms s1 = (r, s')" by simp
    from Cons.IH [OF this] e1 show ?thesis by (blast intro: build_extends_trans)
  qed
qed

lemma append_module_extends:
  "append_module e m nm dependent s = (r, s') \<Longrightarrow> build_extends (build s) (build s')"
  by (auto simp: append_module_def Let_def print_def build_extends_append
      split: option.splits if_splits dest!: validate_added_module_unchanged)

lemma add_with_dependencies_extends:
  "add_with_dependencies n e self rc mref dependent s = (r, s') \<Longrightarrow>
     build_extends (build s) (build s')"
  and add_dependencies_extends:
  "add_dependencies n e self rc deps nm s = (r, s') \<Longrightarrow>
     build_extends (build s) (build s')"
proof (induction n e self rc mref dependent s and n e self rc deps nm s
    arbitrary: r s' and r s' rule: add_with_dependencies_add_dependencies.induct)
  case (1 n e self remote_config mref dependent s)
  show ?case
  proof (cases "\<exists>m nm deps. resolve_module e self remote_config mref dependent = Inr m
      \<and> name m = Some nm \<and> steps m \<noteq> None \<and> module_is_in_build nm (build s) = Inr False
      \<and> dependencies m = Some deps")
    case True
    then obtain m nm deps where h: "resolve_module e self remote_config mref dependent = Inr m"
      "name m = Some nm" "steps m \<noteq> None" "module_is_in_build nm (build s) = Inr False"
      "dependencies m = Some deps"
      by blast
    obtain r1 s1 where a: "add_dependencies n e self remote_config deps nm s = (r1, s1)"
      by (cases "add_dependencies n e self remote_config deps nm s")
    from "1.IH" [OF h(1) h(2) _ h(4) _ h(5) a] h(3)
    have e1: "build_extends (build s) (build s1)" by simp
    show ?thesis
    proof (cases r1)
      case (Inl err)
      with "1.prems" h a e1 show ?thesis by auto
    next
      case (Inr u)
      with "1.prems" h a have "append_module e m nm dependent s1 = (r, s')" by auto
      from append_module_extends [OF this] e1 show ?thesis
        by (blast intro: build_extends_trans)
    qed
  next
    case False
    with "1.prems" show ?thesis
      by (auto simp: print_def build_extends_refl
          split: sum.splits option.splits if_splits bool.splits
          dest!: append_module_extends)
  qed
next
  case (2 n e self remote_config nm s)
  then show ?case by (simp add: build_extends_refl)
next
  case (3 n e self remote_config dep deps nm s)
  show ?case
  proof (cases n)
    case 0
    with "3.prems" show ?thesis by (simp add: build_extends_refl)
  next
    case (Suc k)
    obtain r1 s1 where a: "add_with_dependencies k e self remote_config (ByName dep) (Some nm) s
        = (r1, s1)"
      by (cases "add_with_dependencies k e self remote_config (ByName dep) (Some nm) s")
    from "3.IH"(1) [OF Suc a] have e1: "build_extends (build s) (build s1)" .
    show ?thesis
    proof (cases r1)
      case (Inl err)
      with "3.prems" Suc a e1 show ?thesis by simp
    next
      case (Inr u)
      with "3.prems" Suc a have "add_dependencies n e self remote_config deps nm s1 = (r, s')"
        by simp
      from "3.IH"(2) [OF Suc a [symmetric] Inr this] e1 show ?thesis
        by (blast intro: build_extends_trans)
    qed
  qed
qed

lemma add_all_extends:
  "add_all n e self rc ms s = (r, s') \<Longrightarrow> build_extends (build s) (build s')"
proof (induction ms arbitrary: s)
  case Nil
  then show ?case by (auto simp: build_extends_refl)
next
  case (Cons m ms)
  obtain r1 s1 where a: "add_with_dependencies n e self (Some rc) (Object m) None s = (r1, s1)"
    by (cases "add_with_dependencies n e self (Some rc) (Object m) None s")
  from add_with_dependencies_extends [OF a] have e1: "build_extends (build s) (build s1)" .
  show ?case
  proof (cases r1)
    case (Inl err)
    with Cons.prems a e1 show ?thesis by simp
  next
    case (Inr u)
    with Cons.prems a have "add_all n e self rc ms s1 = (r, s')" by simp
    from Cons.IH [OF this] e1 show ?thesis by (blast intro: build_extends_trans)
  qed
qed

lemma print_module_names_unchanged:
  "print_module_names ms s = (r, s') \<Longrightarrow> build s' = build s"
proof (induction ms arbitrary: s)
  case Nil
  then show ?case by auto
next
  case (Cons m ms)
  then show ?case by (fastforce simp: print_def split: option.splits)
qed

lemma input_unchanged: "input prompt s = (r, s') \<Longrightarrow> build s' = build s"
  by (auto simp: input_def print_def Let_def split: list.splits)

lemma add_using_url_extends:
  assumes "add_using_url n e self u to_add checksum non_interactive s = (r, s')"
  shows "build_extends (build s) (build s')"
proof (cases "\<exists>p c rc ps. fetch_config e u checksum = Inr (p, c)
    \<and> cfbsjson_init e p (Some u) (Some c) = Inr rc \<and> get_provides e rc = Inr ps")
  case True
  then obtain p c rc ps where h: "fetch_config e u checksum = Inr (p, c)"
    "cfbsjson_init e p (Some u) (Some c) = Inr rc" "get_provides e rc = Inr ps"
    by blast
  show ?thesis
  proof (cases "to_add = []")
    case True
    obtain r2 s2 where pm: "print_module_names (map snd ps)
        (print (''Found '' @ string_of_nat (length (map snd ps)) @ '' modules in ''
           @ sq @ u @ sq @ '':'') s) = (r2, s2)"
      by (cases "print_module_names (map snd ps)
        (print (''Found '' @ string_of_nat (length (map snd ps)) @ '' modules in ''
           @ sq @ u @ sq @ '':'') s)")
    from print_module_names_unchanged [OF pm] have b2: "build s2 = build s"
      by (simp add: print_def)
    obtain r3 s3 where inp: "input (''Do you want to add all ''
        @ string_of_nat (length (map snd ps)) @ '' of them? [y/N] '') s2 = (r3, s3)"
      by (cases "input (''Do you want to add all ''
        @ string_of_nat (length (map snd ps)) @ '' of them? [y/N] '') s2")
    from input_unchanged [OF inp] b2 have b3: "build s3 = build s" by simp
    from assms h True pm inp b2 b3 show ?thesis
      by (auto simp: add_using_url_def Let_def build_extends_refl user_error_def
          split: sum.splits if_splits dest!: add_all_extends)
  next
    case False
    with assms h show ?thesis
      by (auto simp: add_using_url_def Let_def build_extends_refl user_error_def
          split: if_splits dest!: add_all_extends)
  qed
next
  case False
  with assms show ?thesis
    by (auto simp: add_using_url_def build_extends_refl split: sum.splits prod.splits)
qed

lemma add_modules_plan_extends:
  assumes "add_modules_plan e self to_add ab s = (r, s')"
  shows "build_extends (build s) (build s')"
proof -
  obtain r1 s1 where t: "translate e (cj_index self) to_add [] s = (r1, s1)"
    by (cases "translate e (cj_index self) to_add [] s")
  from translate_unchanged [OF t] have b1: "build s1 = build s" by simp
  have m: "build_extends (build s) b2" if "mark_user_requested tr d (build s) = (x, b2)"
    for tr d x b2
    using mark_user_requested_extends [of "build s" tr d] that by simp
  from assms t b1 show ?thesis
    by (auto simp: add_modules_plan_def Let_def build_extends_refl user_error_def
        split: sum.splits if_splits prod.splits option.splits
        dest!: filter_added_unchanged m)
qed

lemma add_modules_extends:
  "add_modules n e self to_add ab s = (r, s') \<Longrightarrow> build_extends (build s) (build s')"
  and add_command_extends:
  "add_command n e self to_add ab checksum non_interactive s = (r, s') \<Longrightarrow>
     build_extends (build s) (build s')"
proof (induction n e self to_add ab s and n e self to_add ab checksum non_interactive s
    arbitrary: r s' and r s' rule: add_modules_add_command.induct)
  case (1 n e self to_add added_by' s)
  obtain rp s3 where p: "add_modules_plan e self to_add added_by' s = (rp, s3)"
    by (cases "add_modules_plan e self to_add added_by' s")
  from add_modules_plan_extends [OF p] have e3: "build_extends (build s) (build s3)" .
  show ?case
  proof (cases rp)
    case (Inl err)
    with "1.prems" p e3 show ?thesis by simp
  next
    case (Inr plan)
    obtain ab filtered ur deps dab where plan: "plan = (ab, filtered, ur, deps, dab)"
      by (cases plan)
    define rec where "rec = (if deps \<noteq> [] then
              (case n of
                 0 \<Rightarrow> (Inl RecursionError, s3)
               | Suc k \<Rightarrow> add_command k e self deps (AList dab) None False s3)
            else (Inr 0, s3))"
    obtain r4 s4 where rc: "rec = (r4, s4)" by (cases rec)
    have e4: "build_extends (build s3) (build s4)"
    proof (cases "deps \<noteq> [] \<and> n \<noteq> 0")
      case True
      then obtain k where k: "n = Suc k" by (cases n) auto
      with True rc have "add_command k e self deps (AList dab) None False s3 = (r4, s4)"
        by (simp add: rec_def)
      from True have "deps \<noteq> []" by simp
      from "1.IH" [OF p [symmetric] Inr plan [symmetric] refl refl refl this k \<open>add_command k e self deps (AList dab) None False s3 = (r4, s4)\<close>]
      show ?thesis .
    next
      case False
      with rc show ?thesis by (auto simp: rec_def build_extends_refl split: if_splits)
    qed
    show ?thesis
    proof (cases r4)
      case (Inl err)
      with "1.prems" p Inr plan rc e3 e4 show ?thesis
        by (auto simp: rec_def [symmetric] intro: build_extends_trans)
    next
      case r4: (Inr v)
      obtain r5 s5 where mt: "materialize e (cj_index self) ab ur filtered s4 = (r5, s5)"
        by (cases "materialize e (cj_index self) ab ur filtered s4")
      from materialize_extends [OF mt] have e5: "build_extends (build s4) (build s5)" .
      from "1.prems" p Inr plan rc r4 mt have "s' = s5"
        by (auto simp: rec_def [symmetric] split: sum.splits)
      with e3 e4 e5 show ?thesis by (blast intro: build_extends_trans)
    qed
  qed
next
  case (2 n e self added_by' checksum non_interactive s)
  then show ?case by (simp add: build_extends_refl)
next
  case (3 n e self first rest added_by' checksum non_interactive s)
  show ?case
  proof (cases "is_remote_source e first")
    case True
    with "3.prems" show ?thesis by (auto dest: add_using_url_extends)
  next
    case False
    with "3.prems" "3.IH" show ?thesis by auto
  qed
qed

section \<open>Attribution promotion\<close>

lemma promoted_keeps_marker:
  "promoted b b' \<Longrightarrow> added_by b = Some ''cfbs add'' \<Longrightarrow>
     name b' = name b \<and> added_by b' = Some ''cfbs add''"
  by (auto simp: promoted_def)

lemma promoted_keeps_name: "promoted b b' \<Longrightarrow> name b' = name b"
  by (auto simp: promoted_def)

lemma build_extends_keeps_marker:
  assumes "build_extends b b'" and "i < length b" and "added_by (b ! i) = Some ''cfbs add''"
  shows "i < length b' \<and> name (b' ! i) = name (b ! i) \<and> added_by (b' ! i) = Some ''cfbs add''"
  using build_extends_nth [OF assms(1,2)] assms(3) promoted_keeps_marker by blast

lemma mark_user_requested_length:
  "mark_user_requested to_add ab b = (None, b2) \<Longrightarrow> length b2 = length b"
proof (induction b arbitrary: b2)
  case Nil
  then show ?case by simp
next
  case (Cons m b)
  then show ?case
    by (auto split: option.splits if_splits prod.splits)
qed

lemma mark_user_requested_promotes:
  "mark_user_requested to_add ab b = (None, b2) \<Longrightarrow> i < length b \<Longrightarrow>
   name (b ! i) = Some x \<Longrightarrow> x \<in> set to_add \<Longrightarrow> ab x = Some ''cfbs add'' \<Longrightarrow>
   name (b2 ! i) = Some x \<and> added_by (b2 ! i) = Some ''cfbs add''"
proof (induction b arbitrary: b2 i)
  case Nil
  then show ?case by simp
next
  case (Cons m b)
  show ?case
  proof (cases i)
    case 0
    with Cons.prems show ?thesis
      by (auto split: option.splits if_splits prod.splits)
  next
    case (Suc j)
    with Cons.prems Cons.IH [of _ j] show ?thesis
      by (auto split: option.splits if_splits prod.splits)
  qed
qed

lemma translate_keeps_translated:
  "translate e index ms acc s = (Inr tr, s1) \<Longrightarrow>
   set acc \<subseteq> set tr
   \<and> (\<forall>r \<in> set ms. \<forall>x. translated_ref e index r = Some x \<longrightarrow> x \<in> set tr)"
proof (induction ms arbitrary: acc s)
  case Nil
  then show ?case by auto
next
  case (Cons m ms)
  from Cons.prems obtain t s' where t: "translated_ref e index m = Some t"
    and rest: "translate e index ms (acc @ [t]) s' = (Inr tr, s1)"
    by (auto simp: translated_ref_def user_error_def index_exists_def dom_def
        split: if_splits sum.splits option.splits)
  from Cons.IH [OF rest] t show ?case by auto
qed

lemma dict_of_zip_replicate_aux:
  "fold (\<lambda>(k, v) d. d(k \<mapsto> v)) (zip ks (replicate (length ks) a)) m k
     = (if k \<in> set ks then Some a else m k)"
  by (induction ks arbitrary: m) auto

lemma added_by_dict_AStr:
  "added_by_dict (AStr a) tr = Inr d \<Longrightarrow> x \<in> set tr \<Longrightarrow> d x = Some a"
  by (auto simp: added_by_dict_def dict_of_zip_def dict_of_zip_replicate_aux split: if_splits)

lemma add_modules_after_plan:
  assumes "add_modules n e self to_add ab s = (r, s')"
    and "add_modules_plan e self to_add ab s = (rp, s3)"
  shows "build_extends (build s3) (build s')"
proof (cases rp)
  case (Inl err)
  with assms show ?thesis by (simp add: build_extends_refl)
next
  case (Inr plan)
  obtain d filtered ur deps dab where plan: "plan = (d, filtered, ur, deps, dab)"
    by (cases plan)
  define rec where "rec = (if deps \<noteq> [] then
            (case n of
               0 \<Rightarrow> (Inl RecursionError, s3)
             | Suc k \<Rightarrow> add_command k e self deps (AList dab) None False s3)
          else (Inr 0, s3))"
  obtain r4 s4 where rc: "rec = (r4, s4)" by (cases rec)
  then have e4: "build_extends (build s3) (build s4)"
    by (auto simp: rec_def build_extends_refl split: if_splits nat.splits
        dest: add_command_extends)
  show ?thesis
  proof (cases r4)
    case (Inl err)
    with assms Inr plan rc e4 show ?thesis
      by (auto simp: rec_def [symmetric])
  next
    case r4: (Inr v)
    obtain r5 s5 where mt: "materialize e (cj_index self) d ur filtered s4 = (r5, s5)"
      by (cases "materialize e (cj_index self) d ur filtered s4")
    from materialize_extends [OF mt] have e5: "build_extends (build s4) (build s5)" .
    from assms Inr plan rc r4 mt have "s' = s5"
      by (auto simp: rec_def [symmetric] split: sum.splits)
    with e4 e5 show ?thesis by (blast intro: build_extends_trans)
  qed
qed

lemma add_modules_plan_promotes_translated:
  assumes "add_modules_plan e self to_add (AStr ''cfbs add'') s = (Inr plan, s3)"
    and "i < length (build s)" and "name (build s ! i) = Some x" and "r \<in> set to_add"
    and "translated_ref e (cj_index self) r = Some x"
  shows "i < length (build s3) \<and> name (build s3 ! i) = Some x
         \<and> added_by (build s3 ! i) = Some ''cfbs add''"
proof -
  obtain r1 s1 where t: "translate e (cj_index self) to_add [] s = (r1, s1)"
    by (cases "translate e (cj_index self) to_add [] s")
  from translate_unchanged [OF t] have b1: "build s1 = build s" by simp
  from assms(1) t obtain tr where r1: "r1 = Inr tr"
    by (cases r1) (auto simp: add_modules_plan_def)
  from translate_keeps_translated [OF t [unfolded r1]] assms(4,5)
  have xtr: "x \<in> set tr" by blast
  from assms(1) t r1 obtain ab where ab: "added_by_dict (AStr ''cfbs add'') tr = Inr ab"
    by (cases "added_by_dict (AStr ''cfbs add'') tr") (auto simp: add_modules_plan_def)
  from added_by_dict_AStr [OF ab xtr] have abx: "ab x = Some ''cfbs add''" .
  obtain rm b2 where mk: "mark_user_requested tr ab (build s) = (rm, b2)"
    by (cases "mark_user_requested tr ab (build s)")
  from assms(1) t r1 ab mk b1 have rm: "rm = None"
    by (cases rm) (auto simp: add_modules_plan_def Let_def user_error_def split: if_splits)
  from assms(1) t r1 ab mk b1 rm have "build s3 = b2"
    by (auto simp: add_modules_plan_def Let_def user_error_def
        split: if_splits sum.splits prod.splits dest!: filter_added_unchanged)
  with mark_user_requested_promotes [OF mk [unfolded rm] assms(2,3) xtr abx]
    mark_user_requested_length [OF mk [unfolded rm]] assms(2)
  show ?thesis by simp
qed

lemma add_modules_promotes_translated:
  assumes "add_modules n e self to_add (AStr ''cfbs add'') s = (Inr v, s')"
    and "i < length (build s)" and "name (build s ! i) = Some x" and "r \<in> set to_add"
    and "translated_ref e (cj_index self) r = Some x"
  shows "i < length (build s') \<and> name (build s' ! i) = Some x
         \<and> added_by (build s' ! i) = Some ''cfbs add''"
proof -
  obtain rp s3 where p: "add_modules_plan e self to_add (AStr ''cfbs add'') s = (rp, s3)"
    by (cases "add_modules_plan e self to_add (AStr ''cfbs add'') s")
  from assms(1) p obtain plan where rp: "rp = Inr plan"
    by (cases rp) auto
  from add_modules_plan_promotes_translated [OF p [unfolded rp] assms(2-5)]
    build_extends_keeps_marker [OF add_modules_after_plan [OF assms(1) p], of i]
  show ?thesis by simp
qed

lemma construct_provided_module_steps:
  "construct_provided_module e k v u c = Inr m \<Longrightarrow> \<exists>st. steps m = Some st"
  by (auto simp: construct_provided_module_def user_error_def split: option.splits)

lemma construct_all_steps:
  "construct_all e u c ps = Inr ms \<Longrightarrow> list_all (\<lambda>(k, m). \<exists>st. steps m = Some st) ms"
proof (induction ps arbitrary: ms)
  case Nil
  then show ?case by simp
next
  case (Cons p ps)
  obtain k v where p: "p = (k, v)" by (cases p)
  from Cons.prems p show ?case
    by (auto split: sum.splits dest: construct_provided_module_steps Cons.IH)
qed

lemma get_provides_steps:
  "get_provides e cj = Inr ms \<Longrightarrow> list_all (\<lambda>(k, m). \<exists>st. steps m = Some st) ms"
  by (auto simp: get_provides_def user_error_def split: option.splits dest: construct_all_steps)

lemma module_is_in_build_names:
  "build_names b = Inr names \<Longrightarrow> module_is_in_build nm b = Inr (nm \<in> set names)"
proof (induction b arbitrary: names)
  case Nil
  then show ?case by simp
next
  case (Cons m b)
  then show ?case by (auto split: option.splits sum.splits)
qed

lemma add_all_skips:
  assumes "list_all (\<lambda>(k, m). name m = Some k) ps"
    and "list_all (\<lambda>(k, m). \<exists>st. steps m = Some st) ps"
    and "build_names (build s) = Inr names"
  shows "\<forall>k \<in> set ks. map_of ps k \<noteq> None \<and> k \<in> set names \<Longrightarrow>
    add_all n e self rc (List.map_filter (map_of ps) ks) s
      = (Inr 0, s\<lparr>stdout := stdout s
           @ map (\<lambda>k. ''Skipping already added module '' @ sq @ k @ sq) ks\<rparr>)"
  using assms(3)
proof (induction ks arbitrary: s)
  case Nil
  then show ?case by (simp add: map_filter_simps)
next
  case (Cons k ks)
  from Cons.prems(1) obtain m where m: "map_of ps k = Some m" and kn: "k \<in> set names"
    by auto
  from map_of_SomeD [OF m] assms(1,2) have nm: "name m = Some k" and st: "steps m \<noteq> None"
    by (fastforce simp: list_all_iff)+
  from nm have ne: "m \<noteq> empty_module" by (auto simp: empty_module_def)
  from module_is_in_build_names [OF Cons.prems(2), of k] kn
  have inb: "module_is_in_build k (build s) = Inr True" by simp
  have step: "add_with_dependencies n e self (Some rc) (Object m) None s
      = (Inr (), print (''Skipping already added module '' @ sq @ k @ sq) s)"
    using nm st ne inb by (auto simp: resolve_module_def)
  have b: "build_names (build (print (''Skipping already added module '' @ sq @ k @ sq) s))
      = Inr names"
    using Cons.prems(2) by (simp add: print_def)
  from Cons.prems(1) have rest: "\<forall>k \<in> set ks. map_of ps k \<noteq> None \<and> k \<in> set names"
    by simp
  from Cons.IH [OF rest b] m step show ?case
    by (simp add: map_filter_simps print_def)
qed

lemma add_command_remote_readd:
  assumes "is_remote_source e u"
    and "fetch_config e u checksum = Inr (config_path, url_commit)"
    and "cfbsjson_init e config_path (Some u) (Some url_commit) = Inr remote_config"
    and "get_provides e remote_config = Inr provides"
    and "rest \<noteq> []"
    and "build_names (build s) = Inr names"
    and "\<forall>k \<in> set rest. map_of provides k \<noteq> None \<and> k \<in> set names"
  shows "add_command n e self (u # rest) added_by' checksum non_interactive s
     = (Inr 0, s\<lparr>stdout := stdout s
          @ map (\<lambda>k. ''Skipping already added module '' @ sq @ k @ sq) rest\<rparr>)"
proof -
  from assms(7) have "filter (\<lambda>k. map_of provides k = None) rest = []"
    by (auto simp: filter_empty_conv)
  with assms(1-5)
    add_all_skips [OF get_provides_names [OF assms(4)] get_provides_steps [OF assms(4)]
      assms(6) assms(7), of n e self remote_config]
  show ?thesis
    by (simp add: add_using_url_def Let_def)
qed

lemma add_command_promotes:
  assumes "add_command n e self to_add (AStr ''cfbs add'') checksum non_interactive s
      = (Inr v, s')"
    and "\<not> is_remote_source e (hd to_add)"
    and "i < length (build s)" and "name (build s ! i) = Some x" and "r \<in> set to_add"
    and "translated_ref e (cj_index self) r = Some x"
  shows "i < length (build s') \<and> name (build s' ! i) = Some x
         \<and> added_by (build s' ! i) = Some ''cfbs add''"
proof (cases to_add)
  case Nil
  with assms(5) show ?thesis by simp
next
  case (Cons first rest)
  with assms(1,2) have "add_modules n e self to_add (AStr ''cfbs add'') s = (Inr v, s')"
    by simp
  from add_modules_promotes_translated [OF this assms(3-6)] show ?thesis .
qed

text \<open>
  C4, as the code has it. A successful \<open>add_command\<close> on the direct path, with the
  user-requested marker as attribution, leaves every entry of \<open>build\<close> whose name is what
  a requested reference translates to with \<open>added_by\<close> equal to the marker, whatever it was
  before. On the remote path, \<open>add_command\<close> with a remote source and the names of provided
  modules that are all in \<open>build\<close> already returns 0, prints one skip notice for each and
  changes nothing else, so their \<open>added_by\<close> stays as it is. And whatever \<open>add_command\<close>
  or \<open>add_with_dependencies\<close> is called with and however it ends, an entry whose
  \<open>added_by\<close> is the marker is still at its place afterwards, with its name and the marker.
\<close>

theorem attribution_promotion_monotone:
  "(add_command n e self to_add (AStr ''cfbs add'') checksum non_interactive s = (Inr v, s')
      \<and> \<not> is_remote_source e (hd to_add)
      \<and> i < length (build s) \<and> name (build s ! i) = Some x
      \<and> r \<in> set to_add \<and> translated_ref e (cj_index self) r = Some x \<longrightarrow>
      i < length (build s') \<and> name (build s' ! i) = Some x
      \<and> added_by (build s' ! i) = Some ''cfbs add'')
   \<and> (is_remote_source e u \<and> fetch_config e u checksum = Inr (config_path, url_commit)
      \<and> cfbsjson_init e config_path (Some u) (Some url_commit) = Inr remote_config
      \<and> get_provides e remote_config = Inr provides \<and> rest \<noteq> []
      \<and> build_names (build s) = Inr names
      \<and> (\<forall>k \<in> set rest. map_of provides k \<noteq> None \<and> k \<in> set names) \<longrightarrow>
      add_command n e self (u # rest) added_by' checksum non_interactive s
        = (Inr 0, s\<lparr>stdout := stdout s
             @ map (\<lambda>k. ''Skipping already added module '' @ sq @ k @ sq) rest\<rparr>))
   \<and> (add_command n e self to_add added_by' checksum non_interactive s = (r2, s2)
      \<and> j < length (build s) \<and> added_by (build s ! j) = Some ''cfbs add'' \<longrightarrow>
      j < length (build s2) \<and> name (build s2 ! j) = name (build s ! j)
      \<and> added_by (build s2 ! j) = Some ''cfbs add'')
   \<and> (add_with_dependencies n e self remote mref dependent s = (r3, s3)
      \<and> j < length (build s) \<and> added_by (build s ! j) = Some ''cfbs add'' \<longrightarrow>
      j < length (build s3) \<and> name (build s3 ! j) = name (build s ! j)
      \<and> added_by (build s3 ! j) = Some ''cfbs add'')"
  using add_command_promotes [of n e self to_add checksum non_interactive s v s' i x r]
    add_command_remote_readd [of e u checksum config_path url_commit remote_config provides
      rest s names n self added_by' non_interactive]
    build_extends_keeps_marker [OF add_command_extends, of n e self to_add added_by' checksum
      non_interactive s r2 s2 j]
    build_extends_keeps_marker [OF add_with_dependencies_extends, of n e self remote mref
      dependent s r3 s3 j]
  by blast

theorem attribution_promotion_monotone_witness:
  "map (\<lambda>m. (name m, added_by m)) (build promotion_state)
       = [(Some ''B'', Some ''A''), (Some ''A'', Some ''cfbs add'')]
   \<and> fst promotion_command_run = Inr 0
   \<and> name (build (snd promotion_command_run) ! 0) = Some ''B''
   \<and> added_by (build (snd promotion_command_run) ! 0) = Some ''cfbs add''
   \<and> remote_command_run
       = (Inr 0, promotion_state\<lparr>stdout :=
            [''Skipping already added module '' @ sq @ ''B'' @ sq]\<rparr>)
   \<and> fst dependency_readd_run = Inr 0
   \<and> name (build (snd dependency_readd_run) ! 1) = Some ''A''
   \<and> added_by (build (snd dependency_readd_run) ! 1) = Some ''cfbs add''
   \<and> added_by (build (snd remote_readd_run) ! 1) = Some ''cfbs add''"
proof -
  have r1: "fst promotion_command_run = Inr 0" by code_simp
  have r2: "fst dependency_readd_run = Inr 0" by code_simp
  have st: "map (\<lambda>m. (name m, added_by m)) (build promotion_state)
       = [(Some ''B'', Some ''A''), (Some ''A'', Some ''cfbs add'')]"
    by (simp add: promotion_state_def ex_state_def)
  have a: "add_command 0 ex_env promotion_self [''B''] (AStr ''cfbs add'') None False
        promotion_state = (Inr 0, snd promotion_command_run)
      \<and> \<not> is_remote_source ex_env (hd [''B''])
      \<and> 0 < length (build promotion_state)
      \<and> name (build promotion_state ! 0) = Some ''B'' \<and> ''B'' \<in> set [''B'']
      \<and> translated_ref ex_env (cj_index promotion_self) ''B'' = Some ''B''"
    using r1 by (simp add: promotion_command_run_def promotion_state_def ex_state_def
        promotion_self_def ex_self_def ex_entry_def empty_module_def prod_eq_iff
        translated_ref_def is_remote_source_def ex_env_def endswith_any_def endswith_def
        startswith_any_def startswith_def url_schemes_def)
  have b1: "is_remote_source promotion_env ''https://example.com/repo''"
    by (simp add: is_remote_source_def startswith_any_def startswith_def url_schemes_def)
  have b2: "fetch_config promotion_env ''https://example.com/repo'' None
      = Inr (''/tmp/repo/cfbs.json'', ''c0ffee'')"
    by code_simp
  have b3: "cfbsjson_init promotion_env ''/tmp/repo/cfbs.json''
      (Some ''https://example.com/repo'') (Some ''c0ffee'') = Inr promotion_remote"
    by (simp add: cfbsjson_init_def promotion_env_def ex_remote_env_def ex_env_def
        promotion_remote_def)
  have b4: "get_provides promotion_env promotion_remote = Inr [(''B'', ex_constructed ''B'')]"
    by (simp add: get_provides_def promotion_remote_def construct_provided_module_def
        ex_provided_def ex_constructed_def empty_module_def)
  have b5: "build_names (build promotion_state) = Inr [''B'', ''A'']"
    by (simp add: promotion_state_def ex_state_def)
  from b1 b2 b3 b4 b5
  have b: "is_remote_source promotion_env ''https://example.com/repo''
      \<and> fetch_config promotion_env ''https://example.com/repo'' None
          = Inr (''/tmp/repo/cfbs.json'', ''c0ffee'')
      \<and> cfbsjson_init promotion_env ''/tmp/repo/cfbs.json''
          (Some ''https://example.com/repo'') (Some ''c0ffee'') = Inr promotion_remote
      \<and> get_provides promotion_env promotion_remote = Inr [(''B'', ex_constructed ''B'')]
      \<and> [''B''] \<noteq> []
      \<and> build_names (build promotion_state) = Inr [''B'', ''A'']
      \<and> (\<forall>k \<in> set [''B'']. map_of [(''B'', ex_constructed ''B'')] k \<noteq> None
            \<and> k \<in> set [''B'', ''A''])"
    by simp
  have c: "add_command 1 ex_env promotion_self [''C''] (AStr ''cfbs add'') None False
        promotion_state = (fst dependency_readd_run, snd dependency_readd_run)
      \<and> 1 < length (build promotion_state)
      \<and> added_by (build promotion_state ! 1) = Some ''cfbs add''"
    by (simp add: dependency_readd_run_def promotion_state_def ex_state_def)
  have d: "add_with_dependencies 0 ex_env promotion_self (Some promotion_remote) (ByName ''B'')
        None promotion_state = (fst remote_readd_run, snd remote_readd_run)
      \<and> 1 < length (build promotion_state)
      \<and> added_by (build promotion_state ! 1) = Some ''cfbs add''"
    by (simp add: remote_readd_run_def promotion_state_def ex_state_def)
  from attribution_promotion_monotone
    [where n = 0 and e = ex_env and self = promotion_self and to_add = "[''B'']"
       and checksum = None and non_interactive = False and s = promotion_state
       and v = 0 and s' = "snd promotion_command_run" and i = 0 and x = "''B''"
       and r = "''B''", THEN conjunct1, THEN mp, OF a]
  have 1: "name (build (snd promotion_command_run) ! 0) = Some ''B''
      \<and> added_by (build (snd promotion_command_run) ! 0) = Some ''cfbs add''"
    by blast
  from attribution_promotion_monotone
    [where n = 0 and e = promotion_env and self = promotion_self
       and u = "''https://example.com/repo''" and checksum = None
       and config_path = "''/tmp/repo/cfbs.json''" and url_commit = "''c0ffee''"
       and remote_config = promotion_remote and provides = "[(''B'', ex_constructed ''B'')]"
       and rest = "[''B'']" and s = promotion_state and names = "[''B'', ''A'']"
       and added_by' = "AStr ''cfbs add''" and non_interactive = False,
     THEN conjunct2, THEN conjunct1, THEN mp, OF b]
  have 2: "remote_command_run
       = (Inr 0, promotion_state\<lparr>stdout :=
            [''Skipping already added module '' @ sq @ ''B'' @ sq]\<rparr>)"
    by (simp add: remote_command_run_def promotion_state_def ex_state_def)
  from attribution_promotion_monotone
    [where n = 1 and e = ex_env and self = promotion_self and to_add = "[''C'']"
       and added_by' = "AStr ''cfbs add''" and checksum = None and non_interactive = False
       and s = promotion_state and ?r2.0 = "fst dependency_readd_run"
       and ?s2.0 = "snd dependency_readd_run" and j = 1,
     THEN conjunct2, THEN conjunct2, THEN conjunct1, THEN mp, OF c]
  have 3: "name (build (snd dependency_readd_run) ! 1) = Some ''A''
      \<and> added_by (build (snd dependency_readd_run) ! 1) = Some ''cfbs add''"
    by (simp add: promotion_state_def ex_state_def)
  from attribution_promotion_monotone
    [where n = 0 and e = ex_env and self = promotion_self
       and remote = "Some promotion_remote" and mref = "ByName ''B''" and dependent = None
       and s = promotion_state and ?r3.0 = "fst remote_readd_run"
       and ?s3.0 = "snd remote_readd_run" and j = 1,
     THEN conjunct2, THEN conjunct2, THEN conjunct2, THEN mp, OF d]
  have 4: "added_by (build (snd remote_readd_run) ! 1) = Some ''cfbs add''"
    by blast
  from st r1 r2 1 2 3 4 show ?thesis by blast
qed

text \<open>
  C4 as stated fails on the remote path: \<open>q\<close> was added as a dependency of \<open>A\<close>, and
  the explicit \<open>add_command(["https://example.com/repo", "q"])\<close> succeeds with a skip
  notice and leaves the \<open>added_by\<close> of \<open>q\<close> at \<open>A\<close>.
\<close>

theorem remote_readd_keeps_dependent_attribution:
  "fst readd_first_run = Inr 0
   \<and> map (\<lambda>m. (name m, added_by m)) (build (snd readd_first_run))
       = [(Some ''q'', Some ''A''), (Some ''A'', Some ''cfbs add'')]
   \<and> fst readd_second_run = Inr 0
   \<and> map (\<lambda>m. (name m, added_by m)) (build (snd readd_second_run))
       = [(Some ''q'', Some ''A''), (Some ''A'', Some ''cfbs add'')]
   \<and> stdout (snd readd_second_run)
       = stdout (snd readd_first_run) @ [''Skipping already added module '' @ sq @ ''q'' @ sq]"
  by code_simp

section \<open>Dependency ordering\<close>

lemma deps_ordered_from_append:
  "deps_ordered_from seen (b @ [m]) \<longleftrightarrow>
     deps_ordered_from seen b
     \<and> list_all (\<lambda>d. Some d \<in> set (seen @ map name b)) (module_dependencies m)"
  by (induction b arbitrary: seen) auto

lemma deps_ordered_append:
  "deps_ordered (b @ [m]) \<longleftrightarrow>
     deps_ordered b \<and> (\<forall>d \<in> set (module_dependencies m). Some d \<in> name ` set b)"
  by (simp add: deps_ordered_def deps_ordered_from_append list_all_iff)

lemma module_is_in_build_True:
  "module_is_in_build nm b = Inr True \<Longrightarrow> Some nm \<in> name ` set b"
  by (induction b) (auto split: option.splits if_splits)

lemma map_sum_id_Some_eq: "map_sum id Some x = Inr (Some m) \<longleftrightarrow> x = Inr m"
  by (cases x) auto

lemma get_module_object_name:
  assumes "catalog_keeps_names index" and "get_module_object e index nm = Inr (Some m)"
  shows "name m = Some nm \<or> name m = None"
proof (cases "startswith nm ''./''")
  case True
  with assms(2) show ?thesis
    by (auto simp: get_module_object_def generate_local_module_object_def
        local_module_data_subdir_def local_module_data_cf_file_def
        local_module_data_json_file_def empty_module_def Let_def
        split: if_splits)
next
  case False
  from assms(1) have "name d = None \<or> name d = Some nm" if "index nm = Some d" for d
    using that by (simp add: catalog_keeps_names_def)
  with False assms(2) show ?thesis
    by (fastforce simp: get_module_object_def split: option.splits)
qed

lemma resolve_module_name:
  assumes "catalog_keeps_names (cj_index (case rc of None \<Rightarrow> self | Some r \<Rightarrow> r))"
    and "resolve_module e self rc (ByName nm) dependent = Inr m"
  shows "name m = Some nm \<or> name m = None"
  using assms
  by (auto simp: resolve_module_def get_module_for_build_def user_error_def map_sum_id_Some_eq
      split: sum.splits option.splits if_splits
      dest: construct_provided_module_name get_module_object_name)

lemma append_module_build:
  "append_module e m nm dependent s = (r, s') \<Longrightarrow> build s' = build s @ [m]"
  by (auto simp: append_module_def Let_def print_def
      split: option.splits if_splits dest!: validate_added_module_unchanged)

lemma add_with_dependencies_ordered:
  "add_with_dependencies n e self rc mref dependent s = (Inr u, s') \<Longrightarrow>
   catalog_keeps_names (cj_index (case rc of None \<Rightarrow> self | Some r \<Rightarrow> r)) \<Longrightarrow>
   deps_ordered (build s) \<Longrightarrow>
     deps_ordered (build s') \<and> name ` set (build s) \<subseteq> name ` set (build s')
     \<and> (\<forall>nm. mref = ByName nm \<longrightarrow> Some nm \<in> name ` set (build s'))"
  and add_dependencies_ordered:
  "add_dependencies n e self rc deps nm s = (Inr u, s') \<Longrightarrow>
   catalog_keeps_names (cj_index (case rc of None \<Rightarrow> self | Some r \<Rightarrow> r)) \<Longrightarrow>
   deps_ordered (build s) \<Longrightarrow>
     deps_ordered (build s') \<and> name ` set (build s) \<subseteq> name ` set (build s')
     \<and> (\<forall>d \<in> set deps. Some d \<in> name ` set (build s'))"
proof (induction n e self rc mref dependent s and n e self rc deps nm s
    arbitrary: u s' and u s' rule: add_with_dependencies_add_dependencies.induct)
  case (1 n e self remote_config mref dependent s)
  note ok = "1.prems"(2) and ord = "1.prems"(3)
  from "1.prems"(1) obtain m where rm: "resolve_module e self remote_config mref dependent = Inr m"
    by (cases "resolve_module e self remote_config mref dependent") auto
  from "1.prems"(1) rm obtain nm where nm: "name m = Some nm"
    by (cases "name m") auto
  from "1.prems"(1) rm nm have st: "steps m \<noteq> None"
    by (auto split: if_splits)
  have ref: "mref = ByName k \<Longrightarrow> k = nm" for k
    using resolve_module_name [OF ok, of e k dependent m] rm nm by auto
  from "1.prems"(1) rm nm st obtain inb where inb: "module_is_in_build nm (build s) = Inr inb"
    by (cases "module_is_in_build nm (build s)") auto
  show ?case
  proof (cases inb)
    case True
    with "1.prems"(1) rm nm st inb have "build s' = build s"
      by (auto simp: print_def)
    with ord module_is_in_build_True [of nm "build s"] inb True ref show ?thesis
      by auto
  next
    case False
    define rec where "rec = (case dependencies m of
                               None \<Rightarrow> (Inr (), s)
                             | Some deps \<Rightarrow> add_dependencies n e self remote_config deps nm s)"
    obtain r1 s1 where rc: "rec = (r1, s1)" by (cases rec)
    from "1.prems"(1) rm nm st inb False rc obtain u1 where r1: "r1 = Inr u1"
      by (cases r1) (auto simp: rec_def [symmetric])
    from "1.prems"(1) rm nm st inb False rc r1
    have ap: "append_module e m nm dependent s1 = (Inr u, s')"
      by (auto simp: rec_def [symmetric])
    have mid: "deps_ordered (build s1) \<and> name ` set (build s) \<subseteq> name ` set (build s1)
        \<and> (\<forall>d \<in> set (module_dependencies m). Some d \<in> name ` set (build s1))"
    proof (cases "dependencies m")
      case None
      with rc ord show ?thesis by (auto simp: rec_def module_dependencies_def)
    next
      case (Some deps)
      with rc r1 have "add_dependencies n e self remote_config deps nm s = (Inr u1, s1)"
        by (simp add: rec_def)
      from "1.IH" [OF rm nm _ inb _ Some this ok ord] st False Some
      show ?thesis by (simp add: module_dependencies_def)
    qed
    from append_module_build [OF ap] have b: "build s' = build s1 @ [m]" .
    with mid nm ref show ?thesis
      by (auto simp: deps_ordered_append)
  qed
next
  case (2 n e self remote_config nm s)
  then show ?case by simp
next
  case (3 n e self remote_config dep deps nm s)
  note ok = "3.prems"(2) and ord = "3.prems"(3)
  from "3.prems"(1) obtain k where k: "n = Suc k"
    by (cases n) auto
  obtain r1 s1 where a: "add_with_dependencies k e self remote_config (ByName dep) (Some nm) s
      = (r1, s1)"
    by (cases "add_with_dependencies k e self remote_config (ByName dep) (Some nm) s")
  from "3.prems"(1) k a obtain u1 where r1: "r1 = Inr u1"
    by (cases r1) auto
  from "3.IH"(1) [OF k a [unfolded r1] ok ord]
  have 1: "deps_ordered (build s1)" "name ` set (build s) \<subseteq> name ` set (build s1)"
    "Some dep \<in> name ` set (build s1)"
    by auto
  from "3.prems"(1) k a r1 have "add_dependencies n e self remote_config deps nm s1 = (Inr u, s')"
    by simp
  from "3.IH"(2) [OF k a [symmetric] r1 this ok 1(1)] 1(2,3)
  show ?case by auto
qed

text \<open>
  The recursive path keeps the ordering: a successful \<open>add_with_dependencies\<close>, on a
  \<open>build\<close> where every dependency of an entry names an earlier entry and with a catalog
  whose entries carry no \<open>name\<close> key of their own, leaves \<open>build\<close> in that order.
\<close>

theorem recursive_add_keeps_dependency_order:
  assumes "add_with_dependencies n e self remote_config mref dependent s = (Inr u, s')"
    and "catalog_keeps_names
           (cj_index (case remote_config of None \<Rightarrow> self | Some rc \<Rightarrow> rc))"
    and "deps_ordered (build s)"
  shows "deps_ordered (build s')"
  using add_with_dependencies_ordered [OF assms] by simp

theorem recursive_add_keeps_dependency_order_witness:
  "fst ordered_run = Inr ()
   \<and> map (\<lambda>m. (name m, dependencies m)) (build (snd ordered_run))
       = [(Some ''q'', None), (Some ''r'', None), (Some ''p'', Some [''q'', ''r''])]
   \<and> deps_ordered (build (snd ordered_run))"
proof -
  have r: "fst ordered_run = Inr ()" by code_simp
  have b: "map (\<lambda>m. (name m, dependencies m)) (build (snd ordered_run))
       = [(Some ''q'', None), (Some ''r'', None), (Some ''p'', Some [''q'', ''r''])]"
    by code_simp
  have 1: "add_with_dependencies 1 ex_env (ex_self []) (Some ordered_remote) (ByName ''p'') None
      ex_state = (Inr (), snd ordered_run)"
    using r by (simp add: ordered_run_def prod_eq_iff)
  have 2: "catalog_keeps_names
      (cj_index (case Some ordered_remote of None \<Rightarrow> ex_self [] | Some rc \<Rightarrow> rc))"
    by (auto simp: catalog_keeps_names_def ordered_remote_def ex_entry_def empty_module_def
        split: if_splits)
  have 3: "deps_ordered (build ex_state)"
    by (simp add: deps_ordered_def ex_state_def)
  from recursive_add_keeps_dependency_order [OF 1 2 3] r b show ?thesis by simp
qed

text \<open>
  C2 at \<open>add_command(["A", "B"])\<close> where \<open>A\<close> depends on \<open>B\<close>: the direct add succeeds
  and appends \<open>A\<close> before \<open>B\<close>, so the dependency of \<open>A\<close> names no earlier entry.
\<close>

theorem same_batch_dependency_lands_later:
  "fst same_batch_run = Inr 0
   \<and> map (\<lambda>m. (name m, dependencies m)) (build (snd same_batch_run))
       = [(Some ''A'', Some [''B'']), (Some ''B'', None)]
   \<and> \<not> deps_ordered (build (snd same_batch_run))"
  by code_simp

section \<open>Dependency cycles and termination\<close>

lemma cycle_plan:
  assumes "build s = []" and "added_by_dict ab [x] = Inr d" and "x = ''A'' \<or> x = ''B''"
  shows "\<exists>ur. add_modules_plan ex_env cycle_self [x] ab s
     = (Inr (d, [x], ur, [if x = ''A'' then ''B'' else ''A''], [x]), s)"
proof -
  from assms(2) obtain a where a: "d x = Some a"
    by (cases "d x") (auto simp: added_by_dict_def split: sum.splits if_splits)
  have s: "s\<lparr>build := []\<rparr> = s" using assms(1) by simp
  from assms(3) show ?thesis
  proof
    assume "x = ''A''"
    with assms(1,2) a s show ?thesis
      by (simp add: add_modules_plan_def cycle_self_def ex_self_def ex_env_def ex_entry_def
          empty_module_def index_exists_def path_exists_def missing_modules_def startswith_def
          get_module_object_def Let_def)
  next
    assume "x = ''B''"
    with assms(1,2) a s show ?thesis
      by (simp add: add_modules_plan_def cycle_self_def ex_self_def ex_env_def ex_entry_def
          empty_module_def index_exists_def path_exists_def missing_modules_def startswith_def
          get_module_object_def Let_def)
  qed
qed

lemma cycle_not_remote: "\<not> is_remote_source ex_env ''A''" "\<not> is_remote_source ex_env ''B''"
  by (simp_all add: is_remote_source_def ex_env_def endswith_any_def endswith_def
      startswith_any_def startswith_def url_schemes_def)

lemma cycle_recursion:
  "build s = [] \<Longrightarrow> added_by_dict ab [x] = Inr d \<Longrightarrow> x = ''A'' \<or> x = ''B'' \<Longrightarrow>
   add_modules n ex_env cycle_self [x] ab s = (Inl RecursionError, s)"
proof (induction n arbitrary: s ab x d)
  case 0
  from cycle_plan [OF "0.prems"] show ?case by auto
next
  case (Suc n)
  from cycle_plan [OF Suc.prems] obtain ur where
    p: "add_modules_plan ex_env cycle_self [x] ab s
     = (Inr (d, [x], ur, [if x = ''A'' then ''B'' else ''A''], [x]), s)"
    by blast
  have ab': "added_by_dict (AList [x]) [if x = ''A'' then ''B'' else ''A'']
    = Inr (dict_of_zip [if x = ''A'' then ''B'' else ''A''] [x])"
    by (simp add: added_by_dict_def dict_of_zip_def)
  have "add_modules n ex_env cycle_self [if x = ''A'' then ''B'' else ''A''] (AList [x]) s
      = (Inl RecursionError, s)"
    by (rule Suc.IH [OF Suc.prems(1) ab']) simp
  with p Suc.prems(3) show ?case
    by (auto simp: cycle_not_remote)
qed

lemma cycle_direct_add_never_returns:
  "\<forall>n. add_command n ex_env cycle_self [''A''] (AStr ''cfbs add'') None False ex_state
     = (Inl RecursionError, ex_state)"
proof
  fix n
  have "added_by_dict (AStr ''cfbs add'') [''A''] = Inr (dict_of_zip [''A''] [''cfbs add''])"
    by (simp add: added_by_dict_def dict_of_zip_def)
  from cycle_recursion [OF _ this, of ex_state n]
  show "add_command n ex_env cycle_self [''A''] (AStr ''cfbs add'') None False ex_state
     = (Inl RecursionError, ex_state)"
    by (simp add: cycle_not_remote ex_state_def)
qed

lemma cycle_resolve:
  assumes "x = ''p'' \<or> x = ''q''"
  shows "resolve_module ex_env self (Some cycle_remote) (ByName x) dependent
     = Inr (empty_module\<lparr>name := Some x, description := Some ''provided'',
         url := Some ''https://example.com/repo'', commit := Some ''c0ffee'',
         dependencies := Some [if x = ''p'' then ''q'' else ''p''],
         steps := Some [''run''], added_by := Some ''cfbs add''\<rparr>)"
  using assms
  by (auto simp: resolve_module_def get_module_for_build_def cycle_remote_def
      construct_provided_module_def ex_provided_def empty_module_def)

lemma cycle_recursion_remote:
  "build s = [] \<Longrightarrow> x = ''p'' \<or> x = ''q'' \<Longrightarrow>
   add_with_dependencies n ex_env self (Some cycle_remote) (ByName x) dependent s
     = (Inl RecursionError, s)"
proof (induction n arbitrary: s x dependent)
  case 0
  then show ?case by (simp add: cycle_resolve empty_module_def)
next
  case (Suc n)
  have "add_with_dependencies n ex_env self (Some cycle_remote)
      (ByName (if x = ''p'' then ''q'' else ''p'')) (Some x) s = (Inl RecursionError, s)"
    by (rule Suc.IH [OF Suc.prems(1)]) simp
  with Suc.prems show ?case
    by (simp add: cycle_resolve empty_module_def)
qed

text \<open>
  C6 as stated fails: \<open>add_command(["A"])\<close> on the catalog where \<open>A\<close> and \<open>B\<close> depend on
  each other, and the recursive add of \<open>p\<close> from the manifest where \<open>p\<close> and \<open>q\<close> depend
  on each other, do not return. Whatever depth of recursion is allowed, they end by
  exceeding it, with \<open>build\<close> still empty.
\<close>

theorem cycles_never_return:
  "(\<forall>n. add_command n ex_env cycle_self [''A''] (AStr ''cfbs add'') None False ex_state
      = (Inl RecursionError, ex_state))
   \<and> (\<forall>n. add_with_dependencies n ex_env (ex_self []) (Some cycle_remote) (ByName ''p'') None
        ex_state = (Inl RecursionError, ex_state))"
  using cycle_direct_add_never_returns cycle_recursion_remote [of ex_state "''p''"]
  by (simp add: ex_state_def)

lemma get_module_object_no_recursion_error:
  "get_module_object e index n \<noteq> Inl RecursionError"
  by (auto simp: get_module_object_def generate_local_module_object_def
      local_module_data_subdir_def Let_def split: option.splits if_splits)

lemma get_module_for_build_no_recursion_error:
  "get_module_for_build e cfg n dependent \<noteq> Inl RecursionError"
  using get_module_object_no_recursion_error [of e "cj_index cfg" n]
  by (auto simp: get_module_for_build_def construct_provided_module_def user_error_def
      split: option.splits if_splits)

lemma resolve_module_no_recursion_error:
  "resolve_module e self rc mref dependent \<noteq> Inl RecursionError"
  using get_module_for_build_no_recursion_error
  by (auto simp: resolve_module_def user_error_def split: module_ref.splits sum.splits
      option.splits if_splits)

lemma module_is_in_build_no_recursion_error:
  "module_is_in_build nm b \<noteq> Inl RecursionError"
  by (induction b) (auto split: option.splits)

lemma any_with_autorun_no_recursion_error:
  "any_with_autorun e xs \<noteq> Inl RecursionError"
  by (induction xs) (auto simp: has_autorun_tag_def Let_def split: sum.splits if_splits)

lemma validate_added_module_no_recursion_error:
  "fst (validate_added_module e m s) \<noteq> Inl RecursionError"
  using any_with_autorun_no_recursion_error
  by (auto simp: validate_added_module_def has_autorun_tag_def Let_def
      split: option.splits sum.splits if_splits)

lemma append_module_no_recursion_error:
  "fst (append_module e m nm dependent s) \<noteq> Inl RecursionError"
  by (simp add: append_module_def Let_def validate_added_module_no_recursion_error)

lemma add_with_dependencies_returns:
  "dependencies_descend e (case rc of None \<Rightarrow> self | Some r \<Rightarrow> r) rk \<Longrightarrow>
   (case mref of ByName k \<Rightarrow> rk k \<le> n
    | Object m \<Rightarrow> \<forall>d \<in> set (module_dependencies m). rk d < n) \<Longrightarrow>
   fst (add_with_dependencies n e self rc mref dependent s) \<noteq> Inl RecursionError"
  and add_dependencies_returns:
  "dependencies_descend e (case rc of None \<Rightarrow> self | Some r \<Rightarrow> r) rk \<Longrightarrow>
   \<forall>d \<in> set deps. rk d < n \<Longrightarrow>
   fst (add_dependencies n e self rc deps nm s) \<noteq> Inl RecursionError"
proof (induction n e self rc mref dependent s and n e self rc deps nm s
    rule: add_with_dependencies_add_dependencies.induct)
  case (1 n e self remote_config mref dependent s)
  note desc = "1.prems"(1)
  show ?case
  proof (cases "\<exists>m nm deps. resolve_module e self remote_config mref dependent = Inr m
      \<and> name m = Some nm \<and> steps m \<noteq> None \<and> module_is_in_build nm (build s) = Inr False
      \<and> dependencies m = Some deps")
    case True
    then obtain m nm deps where h: "resolve_module e self remote_config mref dependent = Inr m"
      "name m = Some nm" "steps m \<noteq> None" "module_is_in_build nm (build s) = Inr False"
      "dependencies m = Some deps"
      by blast
    have small: "\<forall>d \<in> set deps. rk d < n"
    proof (cases mref)
      case (ByName k)
      with h(1) have "get_module_for_build e
          (case remote_config of None \<Rightarrow> self | Some r \<Rightarrow> r) k dependent = Inr (Some m)"
        by (auto simp: resolve_module_def user_error_def
            split: sum.splits option.splits if_splits)
      with desc h(5) have "\<forall>d \<in> set deps. rk d < rk k"
        by (auto simp: dependencies_descend_def module_dependencies_def)
      with "1.prems"(2) ByName show ?thesis by fastforce
    next
      case (Object m')
      with h(1) have "m' = m" by (auto simp: resolve_module_def split: if_splits)
      with "1.prems"(2) Object h(5) show ?thesis by (simp add: module_dependencies_def)
    qed
    from h(3) have st: "\<not> steps m = None" by simp
    have rec: "fst (add_dependencies n e self remote_config deps nm s) \<noteq> Inl RecursionError"
      by (rule "1.IH" [OF h(1) h(2) st h(4) _ h(5) desc small]) simp
    with h show ?thesis
      by (auto simp: append_module_no_recursion_error split: prod.splits sum.splits)
  next
    case False
    then show ?thesis
      using resolve_module_no_recursion_error [of e self remote_config mref dependent]
        module_is_in_build_no_recursion_error
      by (auto simp: append_module_no_recursion_error
          split: sum.splits option.splits if_splits bool.splits prod.splits)
  qed
next
  case (2 n e self remote_config nm s)
  then show ?case by simp
next
  case (3 n e self remote_config dep deps nm s)
  from "3.prems"(2) obtain k where k: "n = Suc k" by (cases n) auto
  with "3.prems"(2) have dep: "rk dep \<le> k" by simp
  obtain r1 s1 where a: "add_with_dependencies k e self remote_config (ByName dep) (Some nm) s
      = (r1, s1)"
    by (cases "add_with_dependencies k e self remote_config (ByName dep) (Some nm) s")
  from "3.IH"(1) [OF k "3.prems"(1)] dep a have r1: "r1 \<noteq> Inl RecursionError" by simp
  show ?case
  proof (cases r1)
    case (Inl err)
    with k a r1 show ?thesis by simp
  next
    case (Inr u)
    from "3.IH"(2) [OF k a [symmetric] Inr "3.prems"(1)] "3.prems"(2)
    have "fst (add_dependencies n e self remote_config deps nm s1) \<noteq> Inl RecursionError"
      by simp
    with k a Inr show ?thesis by simp
  qed
qed

lemma translate_sources:
  "translate e index ms acc s = (Inr tr, s1) \<Longrightarrow> t \<in> set tr \<Longrightarrow>
     t \<in> set acc \<or> (\<exists>r \<in> set ms. translated_ref e index r = Some t)"
proof (induction ms arbitrary: acc s)
  case Nil
  then show ?case by auto
next
  case (Cons m ms)
  show ?case
  proof (cases "index m")
    case None
    with Cons.prems obtain t' where t': "local_module_name e m = Inr t'" "path_exists e m"
      "translate e index ms (acc @ [t']) s = (Inr tr, s1)"
      by (auto simp: user_error_def index_exists_def split: if_splits sum.splits)
    from None t'(1,2) have "translated_ref e index m = Some t'"
      by (simp add: translated_ref_def)
    with Cons.IH [OF t'(3) Cons.prems(2)] show ?thesis
      by auto
  next
    case (Some dm)
    show ?thesis
    proof (cases "alias_key dm")
      case None
      with Some Cons.prems have "translate e index ms (acc @ [m]) s = (Inr tr, s1)"
        by (auto simp: user_error_def index_exists_def split: if_splits)
      moreover from Some None have "translated_ref e index m = Some m"
        by (simp add: translated_ref_def)
      ultimately show ?thesis
        using Cons.IH [of "acc @ [m]" s] Cons.prems(2) by auto
    next
      case (Some a)
      with \<open>index m = Some dm\<close> Cons.prems
      have "translate e index ms (acc @ [a]) (print (m @ '' is an alias for '' @ a) s)
          = (Inr tr, s1)"
        by (auto simp: user_error_def index_exists_def split: if_splits)
      moreover from Some \<open>index m = Some dm\<close> have "translated_ref e index m = Some a"
        by (simp add: translated_ref_def)
      ultimately show ?thesis
        using Cons.IH [of "acc @ [a]" "print (m @ '' is an alias for '' @ a) s"] Cons.prems(2)
        by auto
    qed
  qed
qed

lemma translate_no_recursion_error:
  assumes "\<forall>p. local_module_name e p \<noteq> Inl RecursionError"
  shows "fst (translate e index ms acc s) \<noteq> Inl RecursionError"
proof (induction ms arbitrary: acc s)
  case Nil
  then show ?case by simp
next
  case (Cons m ms)
  with assms [rule_format, of m] show ?case
    by (auto simp: user_error_def split: sum.splits option.splits)
qed

lemma filter_added_subset:
  "filter_added ab added ms filtered ur s = (Inr (f, ur'), s') \<Longrightarrow>
     set f \<subseteq> set filtered \<union> set ms"
proof (induction ms arbitrary: filtered ur s)
  case Nil
  then show ?case by auto
next
  case (Cons m ms)
  then show ?case
    by (fastforce simp: Let_def split: option.splits if_splits)
qed

lemma filter_added_no_recursion_error:
  "fst (filter_added ab added ms filtered ur s) \<noteq> Inl RecursionError"
proof (induction ms arbitrary: filtered ur s)
  case Nil
  then show ?case by simp
next
  case (Cons m ms)
  then show ?case by (auto simp: Let_def split: option.splits)
qed

lemma collect_dependencies_subset:
  "set (fst (collect_dependencies added filtered m deps acc)) \<subseteq> set (fst acc) \<union> set deps"
proof (induction deps arbitrary: acc)
  case Nil
  then show ?case by simp
next
  case (Cons d deps)
  obtain ds dab where acc: "acc = (ds, dab)" by (cases acc)
  show ?case
    using Cons.IH [of "(ds @ [d], dab @ [m])"] Cons.IH [of "(ds, dab)"] acc
    by auto
qed

lemma find_dependencies_sources:
  "find_dependencies e index added filtered ms acc = Inr (deps, dab) \<Longrightarrow> d \<in> set deps \<Longrightarrow>
     d \<in> set (fst acc)
     \<or> (\<exists>f \<in> set ms. \<exists>m. get_module_object e index f = Inr (Some m)
           \<and> d \<in> set (module_dependencies m))"
proof (induction ms arbitrary: acc)
  case Nil
  then show ?case by auto
next
  case (Cons f ms)
  from Cons.prems(1) obtain m where m: "get_module_object e index f = Inr (Some m)"
    and rest: "find_dependencies e index added filtered ms
        (case dependencies m of None \<Rightarrow> acc
         | Some ds \<Rightarrow> collect_dependencies added filtered f ds acc) = Inr (deps, dab)"
    by (auto split: if_splits sum.splits option.splits)
  from Cons.IH [OF rest Cons.prems(2)] show ?case
  proof
    assume d: "d \<in> set (fst (case dependencies m of None \<Rightarrow> acc
         | Some ds \<Rightarrow> collect_dependencies added filtered f ds acc))"
    show ?thesis
    proof (cases "dependencies m")
      case None
      with d show ?thesis by simp
    next
      case (Some ds)
      with d collect_dependencies_subset [of added filtered f ds acc]
      have "d \<in> set (fst acc) \<or> d \<in> set ds" by auto
      with m Some show ?thesis by (auto simp: module_dependencies_def)
    qed
  next
    assume "\<exists>f \<in> set ms. \<exists>m. get_module_object e index f = Inr (Some m)
           \<and> d \<in> set (module_dependencies m)"
    then show ?thesis by auto
  qed
qed

lemma find_dependencies_no_recursion_error:
  "find_dependencies e index added filtered ms acc \<noteq> Inl RecursionError"
proof (induction ms arbitrary: acc)
  case Nil
  then show ?case by simp
next
  case (Cons f ms)
  with get_module_object_no_recursion_error [of e index f] show ?case
    by (auto split: sum.splits option.splits)
qed

lemma materialize_one_no_recursion_error:
  "fst (materialize_one e index ab ur m s) \<noteq> Inl RecursionError"
  using get_module_object_no_recursion_error [of e index m]
  by (auto simp: materialize_one_def Let_def validate_added_module_no_recursion_error
      split: sum.splits option.splits)

lemma materialize_no_recursion_error:
  "fst (materialize e index ab ur ms s) \<noteq> Inl RecursionError"
proof (induction ms arbitrary: s)
  case Nil
  then show ?case by simp
next
  case (Cons m ms)
  with materialize_one_no_recursion_error [of e index ab ur m s] show ?case
    by (auto split: prod.splits sum.splits)
qed

lemma mark_user_requested_no_recursion_error:
  "fst (mark_user_requested to_add ab b) \<noteq> Some RecursionError"
  by (induction b) (auto split: option.splits prod.splits)

lemma build_names_no_recursion_error: "build_names b \<noteq> Inl RecursionError"
  by (induction b) (auto split: option.splits sum.splits)

lemma added_by_dict_no_recursion_error: "added_by_dict ab tr \<noteq> Inl RecursionError"
  by (auto simp: added_by_dict_def split: added_by_arg.splits if_splits)

lemma add_modules_plan_no_recursion_error:
  assumes "\<forall>p. local_module_name e p \<noteq> Inl RecursionError"
  shows "fst (add_modules_plan e self to_add ab s) \<noteq> Inl RecursionError"
proof
  assume bad: "fst (add_modules_plan e self to_add ab s) = Inl RecursionError"
  have 1: False if "translate e (cj_index self) to_add [] s = (Inl RecursionError, s1)" for s1
    using translate_no_recursion_error [OF assms, of "cj_index self" to_add "[]" s] that
    by simp
  have 2: False if "mark_user_requested tr d b = (Some RecursionError, b2)" for tr d b b2
    using mark_user_requested_no_recursion_error [of tr d b] that by simp
  have 3: False if "filter_added d added tr [] None s2 = (Inl RecursionError, s3)"
    for d added tr s2 s3
    using filter_added_no_recursion_error [of d added tr "[]" None s2] that by simp
  from bad show False
    by (auto simp: add_modules_plan_def Let_def user_error_def
        added_by_dict_no_recursion_error build_names_no_recursion_error
        find_dependencies_no_recursion_error
        split: prod.splits sum.splits option.splits if_splits dest: 1 2 3)
qed

lemma add_modules_plan_dependencies:
  assumes "add_modules_plan e self to_add ab s = (Inr (d, filtered, ur, deps, dab), s3)"
    and "x \<in> set deps"
  shows "\<exists>r \<in> set to_add. \<exists>t m. translated_ref e (cj_index self) r = Some t
     \<and> get_module_object e (cj_index self) t = Inr (Some m)
     \<and> x \<in> set (module_dependencies m)"
proof -
  from assms(1) obtain tr s1 where t: "translate e (cj_index self) to_add [] s = (Inr tr, s1)"
    by (auto simp: add_modules_plan_def split: prod.splits sum.splits)
  from assms(1) t obtain b2 added s2 where
    f: "filter_added d added tr [] None s2 = (Inr (filtered, ur), s3)"
    and fd: "find_dependencies e (cj_index self) added filtered filtered ([], [])
        = Inr (deps, dab)"
    by (auto simp: add_modules_plan_def Let_def user_error_def
        split: prod.splits sum.splits option.splits if_splits)
  from find_dependencies_sources [OF fd assms(2)] obtain f' m where
    f': "f' \<in> set filtered" "get_module_object e (cj_index self) f' = Inr (Some m)"
    "x \<in> set (module_dependencies m)"
    by auto
  from filter_added_subset [OF f] f'(1) have "f' \<in> set tr" by auto
  from translate_sources [OF t this] obtain r where
    "r \<in> set to_add" "translated_ref e (cj_index self) r = Some f'"
    by auto
  with f'(2,3) show ?thesis by blast
qed

lemma add_all_returns:
  "dependencies_descend e rc rk \<Longrightarrow>
   \<forall>m \<in> set ms. \<forall>d \<in> set (module_dependencies m). rk d < n \<Longrightarrow>
   fst (add_all n e self rc ms s) \<noteq> Inl RecursionError"
proof (induction ms arbitrary: s)
  case Nil
  then show ?case by simp
next
  case (Cons m ms)
  obtain r1 s1 where a: "add_with_dependencies n e self (Some rc) (Object m) None s = (r1, s1)"
    by (cases "add_with_dependencies n e self (Some rc) (Object m) None s")
  from add_with_dependencies_returns
    [where e = e and rc = "Some rc" and self = self and rk = rk and mref = "Object m"
       and n = n and dependent = None and s = s] Cons.prems a
  have r1: "r1 \<noteq> Inl RecursionError" by simp
  show ?case
  proof (cases r1)
    case (Inl err)
    with a r1 show ?thesis by simp
  next
    case (Inr u)
    from Cons.IH [OF Cons.prems(1), of s1] Cons.prems(2) a Inr show ?thesis by simp
  qed
qed

lemma construct_all_no_recursion_error:
  "construct_all e u c ps \<noteq> Inl RecursionError"
proof (induction ps)
  case Nil
  then show ?case by simp
next
  case (Cons p ps)
  obtain k v where p: "p = (k, v)" by (cases p)
  with Cons show ?case
    by (auto simp: construct_provided_module_def user_error_def
        split: sum.splits option.splits)
qed

lemma get_provides_no_recursion_error: "get_provides e cj \<noteq> Inl RecursionError"
  using construct_all_no_recursion_error
  by (auto simp: get_provides_def user_error_def split: option.splits)

lemma print_module_names_no_recursion_error:
  "fst (print_module_names ms s) \<noteq> Inl RecursionError"
  by (induction ms arbitrary: s) (auto split: option.splits)

lemma fetch_config_no_recursion_error:
  "collaborators_return e \<Longrightarrow> fetch_config e u checksum \<noteq> Inl RecursionError"
  by (auto simp: fetch_config_def collaborators_return_def)

lemma cfbsjson_init_no_recursion_error: "cfbsjson_init e p u c \<noteq> Inl RecursionError"
  by (auto simp: cfbsjson_init_def Let_def)

lemma add_using_url_returns:
  assumes "collaborators_return e" and "remote_descend e rk" and "rk u \<le> n"
  shows "fst (add_using_url n e self u to_add checksum non_interactive s) \<noteq> Inl RecursionError"
proof (cases "\<exists>p c rc ps. fetch_config e u checksum = Inr (p, c)
    \<and> cfbsjson_init e p (Some u) (Some c) = Inr rc \<and> get_provides e rc = Inr ps")
  case True
  then obtain p c rc ps where h: "fetch_config e u checksum = Inr (p, c)"
    "cfbsjson_init e p (Some u) (Some c) = Inr rc" "get_provides e rc = Inr ps"
    by blast
  from assms(2) h have desc: "dependencies_descend e rc rk"
    and prov: "\<And>k m d. (k, m) \<in> set ps \<Longrightarrow> d \<in> set (module_dependencies m) \<Longrightarrow> rk d < rk u"
    unfolding remote_descend_def by blast+
  have all: "fst (add_all n e self rc ms s') \<noteq> Inl RecursionError"
    if "\<forall>m \<in> set ms. \<exists>k. (k, m) \<in> set ps" for ms s'
  proof (rule add_all_returns [OF desc])
    show "\<forall>m \<in> set ms. \<forall>d \<in> set (module_dependencies m). rk d < n"
      using that prov assms(3) by fastforce
  qed
  have sel: "\<forall>m \<in> set (List.map_filter (map_of ps) to_add). \<exists>k. (k, m) \<in> set ps"
  proof
    fix m assume "m \<in> set (List.map_filter (map_of ps) to_add)"
    then obtain k where "map_of ps k = Some m"
      by (auto simp: List.map_filter_def)
    from map_of_SomeD [OF this] show "\<exists>k. (k, m) \<in> set ps" by blast
  qed
  have every: "\<forall>m \<in> set (map snd ps). \<exists>k. (k, m) \<in> set ps"
    by auto
  have pm: False if "print_module_names ms s' = (Inl RecursionError, s2)" for ms s' s2
    using print_module_names_no_recursion_error [of ms s'] that by simp
  show ?thesis
  proof
    assume "fst (add_using_url n e self u to_add checksum non_interactive s)
      = Inl RecursionError"
    with h show False
      using all [OF sel] all [OF every]
      by (auto simp: add_using_url_def Let_def user_error_def input_def
          split: sum.splits prod.splits if_splits list.splits dest: pm)
  qed
next
  case False
  then show ?thesis
    using fetch_config_no_recursion_error [OF assms(1), of u checksum]
      cfbsjson_init_no_recursion_error get_provides_no_recursion_error
    by (auto simp: add_using_url_def split: sum.splits prod.splits)
qed

lemma add_modules_returns:
  "references_descend e (cj_index self) rk \<Longrightarrow> remote_descend e rk \<Longrightarrow>
   collaborators_return e \<Longrightarrow>
   \<forall>r \<in> set to_add. rk r \<le> n \<Longrightarrow>
   fst (add_modules n e self to_add ab s) \<noteq> Inl RecursionError"
  and add_command_returns:
  "references_descend e (cj_index self) rk \<Longrightarrow> remote_descend e rk \<Longrightarrow>
   collaborators_return e \<Longrightarrow>
   \<forall>r \<in> set to_add. rk r \<le> n \<Longrightarrow>
   fst (add_command n e self to_add ab checksum non_interactive s) \<noteq> Inl RecursionError"
proof (induction n e self to_add ab s and n e self to_add ab checksum non_interactive s
    rule: add_modules_add_command.induct)
  case (1 n e self to_add added_by' s)
  note desc = "1.prems"(1) and rem = "1.prems"(2) and col = "1.prems"(3)
    and small = "1.prems"(4)
  from col have loc: "\<forall>p. local_module_name e p \<noteq> Inl RecursionError"
    by (simp add: collaborators_return_def)
  obtain rp s3 where p: "add_modules_plan e self to_add added_by' s = (rp, s3)"
    by (cases "add_modules_plan e self to_add added_by' s")
  show ?case
  proof (cases rp)
    case (Inl err)
    with p add_modules_plan_no_recursion_error [OF loc, of self to_add added_by' s]
    show ?thesis by simp
  next
    case (Inr plan)
    obtain ab filtered ur deps dab where plan: "plan = (ab, filtered, ur, deps, dab)"
      by (cases plan)
    have below: "rk x < n" if "x \<in> set deps" for x
    proof -
      from add_modules_plan_dependencies [OF p [unfolded Inr plan] that]
      obtain r t m where r: "r \<in> set to_add" "translated_ref e (cj_index self) r = Some t"
        "get_module_object e (cj_index self) t = Inr (Some m)"
        "x \<in> set (module_dependencies m)"
        by blast
      from desc r(2-4) have "rk x < rk r"
        unfolding references_descend_def by blast
      with small r(1) show ?thesis by fastforce
    qed
    define rec where "rec = (if deps \<noteq> [] then
              (case n of
                 0 \<Rightarrow> (Inl RecursionError, s3)
               | Suc k \<Rightarrow> add_command k e self deps (AList dab) None False s3)
            else (Inr 0, s3))"
    have rec: "fst rec \<noteq> Inl RecursionError"
    proof (cases "deps = []")
      case True
      then show ?thesis by (simp add: rec_def)
    next
      case False
      then obtain x where "x \<in> set deps" by (cases deps) auto
      from below [OF this] obtain k where k: "n = Suc k" by (cases n) auto
      from below k have "\<forall>r \<in> set deps. rk r \<le> k" by fastforce
      from "1.IH" [OF p [symmetric] Inr plan [symmetric] refl refl refl False k desc rem col this]
      show ?thesis using False k by (simp add: rec_def)
    qed
    have mat: False
      if "materialize e (cj_index self) ab ur filtered s4 = (Inl RecursionError, s5)"
      for s4 s5
      using materialize_no_recursion_error [of e "cj_index self" ab ur filtered s4] that
      by simp
    from p Inr plan rec show ?thesis
      by (auto simp: rec_def [symmetric] split: prod.splits sum.splits dest: mat)
  qed
next
  case (2 n e self added_by' checksum non_interactive s)
  then show ?case by (simp add: user_error_def)
next
  case (3 n e self first rest added_by' checksum non_interactive s)
  show ?case
  proof (cases "is_remote_source e first")
    case True
    from "3.prems"(4) have "rk first \<le> n" by simp
    from add_using_url_returns [OF "3.prems"(3,2) this] True show ?thesis by simp
  next
    case False
    from "3.IH" [OF False "3.prems"] False show ?thesis by simp
  qed
qed

text \<open>
  A call that does not end by exceeding the allowed depth gives the same result with any
  greater depth.
\<close>

lemma add_with_dependencies_deeper:
  "fst (add_with_dependencies n e self rc mref dependent s) \<noteq> Inl RecursionError \<Longrightarrow>
   add_with_dependencies (Suc n) e self rc mref dependent s
     = add_with_dependencies n e self rc mref dependent s"
  and add_dependencies_deeper:
  "fst (add_dependencies n e self rc deps nm s) \<noteq> Inl RecursionError \<Longrightarrow>
   add_dependencies (Suc n) e self rc deps nm s = add_dependencies n e self rc deps nm s"
proof (induction n e self rc mref dependent s and n e self rc deps nm s
    rule: add_with_dependencies_add_dependencies.induct)
  case (1 n e self remote_config mref dependent s)
  show ?case
  proof (cases "\<exists>m nm deps. resolve_module e self remote_config mref dependent = Inr m
      \<and> name m = Some nm \<and> steps m \<noteq> None \<and> module_is_in_build nm (build s) = Inr False
      \<and> dependencies m = Some deps")
    case True
    then obtain m nm deps where h: "resolve_module e self remote_config mref dependent = Inr m"
      "name m = Some nm" "steps m \<noteq> None" "module_is_in_build nm (build s) = Inr False"
      "dependencies m = Some deps"
      by blast
    from h(3) have st: "\<not> steps m = None" by simp
    from "1.prems" h
    have "fst (add_dependencies n e self remote_config deps nm s) \<noteq> Inl RecursionError"
      by (auto split: prod.splits sum.splits)
    from "1.IH" [OF h(1) h(2) st h(4) _ h(5) this]
    have "add_dependencies (Suc n) e self remote_config deps nm s
        = add_dependencies n e self remote_config deps nm s"
      by simp
    with h st show ?thesis by auto
  next
    case False
    then show ?thesis
      by (auto split: sum.splits option.splits if_splits bool.splits)
  qed
next
  case (2 n e self remote_config nm s)
  then show ?case by simp
next
  case (3 n e self remote_config dep deps nm s)
  from "3.prems" obtain k where k: "n = Suc k" by (cases n) auto
  obtain r1 s1 where a: "add_with_dependencies k e self remote_config (ByName dep) (Some nm) s
      = (r1, s1)"
    by (cases "add_with_dependencies k e self remote_config (ByName dep) (Some nm) s")
  from "3.prems" k a have r1: "r1 \<noteq> Inl RecursionError"
    by (auto split: sum.splits)
  from "3.IH"(1) [OF k] a r1
  have up: "add_with_dependencies (Suc k) e self remote_config (ByName dep) (Some nm) s
      = (r1, s1)"
    by simp
  show ?case
  proof (cases r1)
    case (Inl err)
    with k a up show ?thesis by simp
  next
    case (Inr u)
    with "3.prems" k a
    have "fst (add_dependencies n e self remote_config deps nm s1) \<noteq> Inl RecursionError"
      by simp
    from "3.IH"(2) [OF k a [symmetric] Inr this] k a up Inr show ?thesis by simp
  qed
qed

lemma add_all_deeper:
  "fst (add_all n e self rc ms s) \<noteq> Inl RecursionError \<Longrightarrow>
   add_all (Suc n) e self rc ms s = add_all n e self rc ms s"
proof (induction ms arbitrary: s)
  case Nil
  then show ?case by simp
next
  case (Cons m ms)
  obtain r1 s1 where a: "add_with_dependencies n e self (Some rc) (Object m) None s = (r1, s1)"
    by (cases "add_with_dependencies n e self (Some rc) (Object m) None s")
  from Cons.prems a have r1: "r1 \<noteq> Inl RecursionError" by (auto split: sum.splits)
  from add_with_dependencies_deeper [of n e self "Some rc" "Object m" None s] a r1
  have up: "add_with_dependencies (Suc n) e self (Some rc) (Object m) None s = (r1, s1)"
    by simp
  show ?case
  proof (cases r1)
    case (Inl err)
    with a up show ?thesis by simp
  next
    case (Inr u)
    with Cons.prems a have "fst (add_all n e self rc ms s1) \<noteq> Inl RecursionError" by simp
    from Cons.IH [OF this] a up Inr show ?thesis by simp
  qed
qed

lemma add_using_url_deeper:
  assumes "fst (add_using_url n e self u to_add checksum non_interactive s) \<noteq> Inl RecursionError"
  shows "add_using_url (Suc n) e self u to_add checksum non_interactive s
     = add_using_url n e self u to_add checksum non_interactive s"
  using assms
  by (auto simp: add_using_url_def Let_def add_all_deeper
      split: sum.splits prod.splits if_splits)

lemma add_modules_deeper:
  "fst (add_modules n e self to_add ab s) \<noteq> Inl RecursionError \<Longrightarrow>
   add_modules (Suc n) e self to_add ab s = add_modules n e self to_add ab s"
  and add_command_deeper:
  "fst (add_command n e self to_add ab checksum non_interactive s) \<noteq> Inl RecursionError \<Longrightarrow>
   add_command (Suc n) e self to_add ab checksum non_interactive s
     = add_command n e self to_add ab checksum non_interactive s"
proof (induction n e self to_add ab s and n e self to_add ab checksum non_interactive s
    rule: add_modules_add_command.induct)
  case (1 n e self to_add added_by' s)
  obtain rp s3 where p: "add_modules_plan e self to_add added_by' s = (rp, s3)"
    by (cases "add_modules_plan e self to_add added_by' s")
  show ?case
  proof (cases rp)
    case (Inl err)
    with p show ?thesis by simp
  next
    case (Inr plan)
    obtain ab filtered ur deps dab where plan: "plan = (ab, filtered, ur, deps, dab)"
      by (cases plan)
    show ?thesis
    proof (cases "deps = []")
      case True
      with p Inr plan show ?thesis by simp
    next
      case False
      with "1.prems" p Inr plan obtain k where k: "n = Suc k"
        by (cases n) auto
      from "1.prems" p Inr plan False k
      have "fst (add_command k e self deps (AList dab) None False s3) \<noteq> Inl RecursionError"
        by (auto split: prod.splits sum.splits)
      from "1.IH" [OF p [symmetric] Inr plan [symmetric] refl refl refl False k this]
      have "add_command (Suc k) e self deps (AList dab) None False s3
          = add_command k e self deps (AList dab) None False s3" .
      with p Inr plan False k show ?thesis by simp
    qed
  qed
next
  case (2 n e self added_by' checksum non_interactive s)
  then show ?case by simp
next
  case (3 n e self first rest added_by' checksum non_interactive s)
  show ?case
  proof (cases "is_remote_source e first")
    case True
    with "3.prems" show ?thesis by (simp add: add_using_url_deeper)
  next
    case False
    with "3.prems" "3.IH" show ?thesis by simp
  qed
qed

lemma add_with_dependencies_stable:
  assumes "fst (add_with_dependencies n e self rc mref dependent s) \<noteq> Inl RecursionError"
    and "n \<le> m"
  shows "add_with_dependencies m e self rc mref dependent s
     = add_with_dependencies n e self rc mref dependent s"
  using assms(2,1)
proof (induction m rule: dec_induct)
  case base
  then show ?case by simp
next
  case (step k)
  with add_with_dependencies_deeper [of k e self rc mref dependent s] show ?case by simp
qed

lemma add_command_stable:
  assumes "fst (add_command n e self to_add ab checksum non_interactive s) \<noteq> Inl RecursionError"
    and "n \<le> m"
  shows "add_command m e self to_add ab checksum non_interactive s
     = add_command n e self to_add ab checksum non_interactive s"
  using assms(2,1)
proof (induction m rule: dec_induct)
  case base
  then show ?case by simp
next
  case (step k)
  with add_command_deeper [of k e self to_add ab checksum non_interactive s] show ?case by simp
qed

text \<open>
  C6, as the code has it: when the dependencies are acyclic (they descend along a rank, in
  the catalog and in the manifests of the remote sources), both procedures return within
  a recursion depth given by the rank of the request: with that depth allowed they do not
  end by exceeding it, and any greater depth gives the same result. For \<open>add_command\<close>
  the collaborators themselves must return.
\<close>

theorem acyclic_dependencies_return:
  "(dependencies_descend e (case remote_config of None \<Rightarrow> self | Some rc \<Rightarrow> rc) rk
      \<and> ref_within rk n mref \<longrightarrow>
      fst (add_with_dependencies n e self remote_config mref dependent s)
        \<noteq> Inl RecursionError
      \<and> (\<forall>m \<ge> n. add_with_dependencies m e self remote_config mref dependent s
            = add_with_dependencies n e self remote_config mref dependent s))
   \<and> (references_descend e (cj_index self) rk \<and> remote_descend e rk
      \<and> collaborators_return e \<and> (\<forall>r \<in> set to_add. rk r \<le> n) \<longrightarrow>
      fst (add_command n e self to_add added_by' checksum non_interactive s)
        \<noteq> Inl RecursionError
      \<and> (\<forall>m \<ge> n. add_command m e self to_add added_by' checksum non_interactive s
            = add_command n e self to_add added_by' checksum non_interactive s))"
proof -
  have a: "fst (add_with_dependencies n e self remote_config mref dependent s)
      \<noteq> Inl RecursionError"
    if "dependencies_descend e (case remote_config of None \<Rightarrow> self | Some rc \<Rightarrow> rc) rk"
      and "ref_within rk n mref"
    using add_with_dependencies_returns
      [where e = e and rc = remote_config and self = self and rk = rk and mref = mref
         and n = n and dependent = dependent and s = s] that
    by (simp add: ref_within_def list_all_iff split: module_ref.splits)
  have b: "fst (add_command n e self to_add added_by' checksum non_interactive s)
      \<noteq> Inl RecursionError"
    if "references_descend e (cj_index self) rk" and "remote_descend e rk"
      and "collaborators_return e" and "\<forall>r \<in> set to_add. rk r \<le> n"
    using add_command_returns [OF that] .
  from a b show ?thesis
    using add_with_dependencies_stable [of n e self remote_config mref dependent s]
      add_command_stable [of n e self to_add added_by' checksum non_interactive s]
    by blast
qed

theorem acyclic_dependencies_return_witness:
  "fst (add_with_dependencies 1 ex_env (ex_self []) (Some ordered_remote) (Object ordered_object)
      None ex_state) \<noteq> Inl RecursionError
   \<and> map name (build (snd (add_with_dependencies 1 ex_env (ex_self []) (Some ordered_remote)
        (Object ordered_object) None ex_state))) = [Some ''q'', Some ''r'', Some ''p'']
   \<and> fst (add_command 3 remote_chain_env remote_chain_self [''A''] (AStr ''cfbs add'') None
        False remote_chain_state) \<noteq> Inl RecursionError
   \<and> add_command 1000 remote_chain_env remote_chain_self [''A''] (AStr ''cfbs add'') None
        False remote_chain_state
      = add_command 3 remote_chain_env remote_chain_self [''A''] (AStr ''cfbs add'') None
          False remote_chain_state
   \<and> map name (build (snd (add_command 3 remote_chain_env remote_chain_self [''A'']
        (AStr ''cfbs add'') None False remote_chain_state)))
      = [Some ''q'', Some ''p'', Some ''A'']"
proof -
  have a: "dependencies_descend ex_env
      (case Some ordered_remote of None \<Rightarrow> ex_self [] | Some rc \<Rightarrow> rc) remote_rank
      \<and> ref_within remote_rank 1 (Object ordered_object)"
    by (auto simp: dependencies_descend_def get_module_for_build_def ordered_remote_def
        construct_provided_module_def ex_provided_def ex_entry_def empty_module_def
        get_module_object_def startswith_def module_dependencies_def remote_rank_def
        map_sum_id_Some_eq user_error_def ref_within_def ordered_object_def
        ex_constructed_def
        split: if_splits option.splits)
  have nA: "\<not> startswith_any ''A'' url_schemes" "\<not> startswith_any ''p'' url_schemes"
    "\<not> startswith_any ''q'' url_schemes"
    "startswith_any ''https://example.com/repo'' url_schemes"
    by (simp_all add: startswith_any_def startswith_def url_schemes_def)
  have refs: "references_descend remote_chain_env (cj_index remote_chain_self)
      remote_chain_rank"
    using nA
    by (auto simp: references_descend_def translated_ref_def remote_chain_self_def ex_self_def
        remote_chain_env_def ex_remote_env_def ex_env_def path_exists_def ex_entry_def
        empty_module_def get_module_object_def startswith_def module_dependencies_def
        remote_chain_rank_def
        split: if_splits option.splits)
  have col: "collaborators_return remote_chain_env"
    by (simp add: collaborators_return_def remote_chain_env_def ex_remote_env_def ex_env_def)
  have rem: "remote_descend remote_chain_env remote_chain_rank"
    unfolding remote_descend_def
  proof (intro allI impI)
    fix u checksum p c rc
    assume f: "fetch_config remote_chain_env u checksum = Inr (p, c)"
      and i: "cfbsjson_init remote_chain_env p (Some u) (Some c) = Inr rc"
    from f have u: "startswith_any u url_schemes"
      by (auto simp: fetch_config_def remote_chain_env_def ex_remote_env_def ex_env_def
          split: if_splits)
    with nA(1) have uA: "u \<noteq> ''A''" by auto
    from i have rc: "cj_data rc = Some \<lparr>d_provides = Some [(''p'', ex_provided [''q'']),
          (''q'', ex_provided [])], d_index = Some (map_of [])\<rparr>"
      "cj_index rc = map_of []"
      by (auto simp: cfbsjson_init_def remote_chain_env_def ex_remote_env_def ex_env_def
          Let_def split: if_splits)
    have 1: "dependencies_descend remote_chain_env rc remote_chain_rank"
      using rc nA
      by (auto simp: dependencies_descend_def get_module_for_build_def
          construct_provided_module_def ex_provided_def empty_module_def
          module_dependencies_def remote_chain_rank_def map_sum_id_Some_eq user_error_def
          split: if_splits option.splits)
    have 2: "\<forall>ps k m d. get_provides remote_chain_env rc = Inr ps \<longrightarrow> (k, m) \<in> set ps \<longrightarrow>
        d \<in> set (module_dependencies m) \<longrightarrow> remote_chain_rank d < remote_chain_rank u"
      using rc nA u uA
      by (auto simp: get_provides_def construct_provided_module_def ex_provided_def
          empty_module_def module_dependencies_def remote_chain_rank_def user_error_def
          split: if_splits option.splits sum.splits)
    from 1 2 show "dependencies_descend remote_chain_env rc remote_chain_rank
      \<and> (\<forall>ps k m d. get_provides remote_chain_env rc = Inr ps \<longrightarrow> (k, m) \<in> set ps \<longrightarrow>
        d \<in> set (module_dependencies m) \<longrightarrow> remote_chain_rank d < remote_chain_rank u)"
      by blast
  qed
  have small: "\<forall>r \<in> set [''A'']. remote_chain_rank r \<le> 3"
    by (simp add: remote_chain_rank_def)
  from refs rem col small
  have b: "references_descend remote_chain_env (cj_index remote_chain_self) remote_chain_rank
      \<and> remote_descend remote_chain_env remote_chain_rank
      \<and> collaborators_return remote_chain_env
      \<and> (\<forall>r \<in> set [''A'']. remote_chain_rank r \<le> 3)"
    by blast
  have le: "(3::nat) \<le> 1000" by simp
  have c: "map name (build (snd (add_with_dependencies 1 ex_env (ex_self []) (Some ordered_remote)
        (Object ordered_object) None ex_state))) = [Some ''q'', Some ''r'', Some ''p'']"
    by code_simp
  have d: "map name (build (snd (add_command 3 remote_chain_env remote_chain_self [''A'']
        (AStr ''cfbs add'') None False remote_chain_state)))
      = [Some ''q'', Some ''p'', Some ''A'']"
    by code_simp
  from acyclic_dependencies_return
    [where e = ex_env and remote_config = "Some ordered_remote" and self = "ex_self []"
       and rk = remote_rank and mref = "Object ordered_object" and n = 1
       and dependent = None and s = ex_state,
     THEN conjunct1, THEN mp, OF a]
  have 1: "fst (add_with_dependencies 1 ex_env (ex_self []) (Some ordered_remote)
      (Object ordered_object) None ex_state) \<noteq> Inl RecursionError"
    by blast
  from acyclic_dependencies_return
    [where e = remote_chain_env and self = remote_chain_self and rk = remote_chain_rank
       and to_add = "[''A'']" and n = 3 and added_by' = "AStr ''cfbs add''"
       and checksum = None and non_interactive = False and s = remote_chain_state,
     THEN conjunct2, THEN mp, OF b]
  have 2: "fst (add_command 3 remote_chain_env remote_chain_self [''A''] (AStr ''cfbs add'') None
        False remote_chain_state) \<noteq> Inl RecursionError
    \<and> add_command 1000 remote_chain_env remote_chain_self [''A''] (AStr ''cfbs add'') None
        False remote_chain_state
      = add_command 3 remote_chain_env remote_chain_self [''A''] (AStr ''cfbs add'') None
          False remote_chain_state"
    using le by blast
  from 1 2 c d show ?thesis by blast
qed

end
